theory Spec2Isabelle
  imports Complex_Main
begin

section \<open>The custom decision tree: data model\<close>

text \<open>
  The class \<^verbatim>\<open>CustomDecisionTree\<close> of the notebook, embedded function by function.
  Label vectors are integer arrays (\<open>int list\<close>), the feature matrix is a list of rows of
  reals (a NaN feature is outside the model). Every exception the code can raise is a
  value of \<open>error\<close>.
\<close>

datatype error = ValueError | TypeError | IndexError | ZeroDivisionError | RecursionError

text \<open>A tree is a dictionary with either the key \<^verbatim>\<open>'class'\<close> or the four keys
  \<^verbatim>\<open>'feature_idx'\<close>, \<^verbatim>\<open>'threshold'\<close>, \<^verbatim>\<open>'left_tree'\<close>, \<^verbatim>\<open>'right_tree'\<close>.\<close>

datatype node = Leaf int | Internal nat real node node

record CustomDecisionTree =
  max_depth :: "int option"
  tree :: "node option"

definition init :: "int option \<Rightarrow> CustomDecisionTree" where
  "init md = \<lparr>max_depth = md, tree = None\<rparr>"

section \<open>The float64 arithmetic\<close>

text \<open>
  \<^verbatim>\<open>_entropy\<close> and \<^verbatim>\<open>_information_gain\<close> compute in float64, and the search compares
  the float64 results. The arithmetic is a parameter of the model: the quotient of two
  lengths or of a count and a length, the product, the sum and the difference of two
  floats, \<^verbatim>\<open>np.log2\<close>, \<^verbatim>\<open>np.sum\<close> and the float written \<^verbatim>\<open>1e-9\<close>. A finite float is
  the real number it denotes, and two floats compare as these reals do; negation is exact.
  No infinity and no NaN arises from finite features: every logarithm is taken of a
  frequency plus \<^verbatim>\<open>1e-9\<close>, and the only division by a length that can be 0 is that of an
  empty array, which has no element to divide. The one special float the code uses,
  \<^verbatim>\<open>-float('inf')\<close>, is a constructor of its own, further down.
\<close>

record arith =
  fdiv :: "nat \<Rightarrow> nat \<Rightarrow> real"
  fmul :: "real \<Rightarrow> real \<Rightarrow> real"
  fadd :: "real \<Rightarrow> real \<Rightarrow> real"
  fsub :: "real \<Rightarrow> real \<Rightarrow> real"
  flog2 :: "real \<Rightarrow> real"
  fsum :: "real list \<Rightarrow> real"
  tiny :: real

text \<open>The arithmetic of the real numbers, without rounding.\<close>

definition real_arith :: arith where
  "real_arith =
     \<lparr>fdiv = (\<lambda>a b. real a / real b), fmul = (*), fadd = (+), fsub = (-),
      flog2 = log 2, fsum = sum_list, tiny = 1 / 10 ^ 9\<rparr>"

text \<open>
  The operations that IEEE arithmetic carries out without rounding, as far as the trivial
  split needs them: the sum of no float, a length divided by itself, 0 divided by a
  length, the product of zeros, and for every float \<open>h\<close> that is a negated result of
  \<^verbatim>\<open>np.sum\<close> (an entropy), the product of 1 and \<open>h\<close>, the sum of \<open>h\<close> and 0 and the
  difference of \<open>h\<close> and \<open>h\<close>.
\<close>

definition ieee_exact :: "arith \<Rightarrow> bool" where
  "ieee_exact ar =
     (fsum ar [] = 0 \<and> fmul ar 0 0 = 0 \<and>
      (\<forall>n. 0 < n \<longrightarrow> fdiv ar n n = 1 \<and> fdiv ar 0 n = 0) \<and>
      (\<forall>xs. fmul ar 1 (- fsum ar xs) = - fsum ar xs \<and>
            fadd ar (- fsum ar xs) 0 = - fsum ar xs \<and>
            fsub ar (- fsum ar xs) (- fsum ar xs) = 0))"

section \<open>The numpy operations the class uses\<close>

text \<open>\<^verbatim>\<open>np.unique\<close>: the distinct values, ascending.\<close>

definition unique :: "'a::linorder list \<Rightarrow> 'a list" where
  "unique xs = sort (remdups xs)"

text \<open>\<^verbatim>\<open>np.bincount\<close>: raises on a negative entry; the empty array gives the empty array;
  otherwise one count per value from 0 to the maximum.\<close>

definition bincount :: "int list \<Rightarrow> error + nat list" where
  "bincount y =
     (if list_ex (\<lambda>v. v < 0) y then Inl ValueError
      else if y = [] then Inr []
      else Inr (map (\<lambda>v. count_list y (int v)) [0..<Suc (nat (Max (set y)))]))"

text \<open>\<^verbatim>\<open>argmax\<close>: the first index of the maximum; raises on the empty array.\<close>

definition argmax :: "nat list \<Rightarrow> error + nat" where
  "argmax cs =
     (if cs = [] then Inl ValueError
      else Inr (length (takeWhile (\<lambda>c. c \<noteq> Max (set cs)) cs)))"

text \<open>\<^verbatim>\<open>np.bincount(y).argmax()\<close>\<close>

definition bincount_argmax :: "int list \<Rightarrow> error + int" where
  "bincount_argmax y =
     (case bincount y of Inl e \<Rightarrow> Inl e
      | Inr cs \<Rightarrow> (case argmax cs of Inl e \<Rightarrow> Inl e | Inr i \<Rightarrow> Inr (int i)))"

text \<open>\<^verbatim>\<open>y[mask]\<close> with a boolean mask: the lengths must agree.\<close>

definition mask_select :: "'a list \<Rightarrow> bool list \<Rightarrow> error + 'a list" where
  "mask_select y msk =
     (if length msk \<noteq> length y then Inl IndexError
      else Inr (map fst (filter snd (zip y msk))))"

text \<open>\<^verbatim>\<open>X[idx]\<close> with an integer array: one row per index, a negative index counts from
  the end, an index out of range raises.\<close>

definition take_rows :: "'a list \<Rightarrow> int list \<Rightarrow> error + 'a list" where
  "take_rows X idx =
     (if list_all (\<lambda>i. - int (length X) \<le> i \<and> i < int (length X)) idx
      then Inr (map (\<lambda>i. X ! nat (if i < 0 then i + int (length X) else i)) idx)
      else Inl IndexError)"

text \<open>\<^verbatim>\<open>X[:, feature_idx]\<close> and the number of columns of \<^verbatim>\<open>X.shape\<close>. An array is
  rectangular, so every row has that many entries; a matrix with no row never reaches the
  loop over the columns.\<close>

definition column :: "real list list \<Rightarrow> nat \<Rightarrow> real list" where
  "column X feature_idx = map (\<lambda>row. row ! feature_idx) X"

definition num_features :: "real list list \<Rightarrow> nat" where
  "num_features X = (case X of [] \<Rightarrow> 0 | row # _ \<Rightarrow> length row)"

section \<open>Entropy and information gain\<close>

text \<open>
  \<^verbatim>\<open>_entropy\<close>. On the line that computes \<^verbatim>\<open>class_probs\<close> the words after
  \<^verbatim>\<open>len(y)\<close> are read as the comment they were. The empty array has no class, and
  \<^verbatim>\<open>np.sum\<close> is applied to no float. \<^verbatim>\<open>_information_gain\<close> computes the three
  entropies first; the quotients of lengths are Python divisions and raise on an empty
  parent.
\<close>

definition entropy :: "arith \<Rightarrow> int list \<Rightarrow> error + real" where
  "entropy ar y =
     (case bincount y of Inl e \<Rightarrow> Inl e
      | Inr cs \<Rightarrow>
          (let class_probs = map (\<lambda>c. fdiv ar c (length y)) cs
           in Inr (- fsum ar (map (\<lambda>p. fmul ar p (flog2 ar (fadd ar p (tiny ar))))
                                class_probs))))"

definition information_gain ::
  "arith \<Rightarrow> int list \<Rightarrow> int list \<Rightarrow> int list \<Rightarrow> error + real" where
  "information_gain ar parent left right =
     (case entropy ar parent of Inl e \<Rightarrow> Inl e | Inr parent_entropy \<Rightarrow>
      case entropy ar left of Inl e \<Rightarrow> Inl e | Inr left_entropy \<Rightarrow>
      case entropy ar right of Inl e \<Rightarrow> Inl e | Inr right_entropy \<Rightarrow>
      if length parent = 0 then Inl ZeroDivisionError
      else Inr (fsub ar parent_entropy
                (fadd ar (fmul ar (fdiv ar (length left) (length parent)) left_entropy)
                         (fmul ar (fdiv ar (length right) (length parent)) right_entropy))))"

section \<open>The split search\<close>

text \<open>\<^verbatim>\<open>best_info_gain\<close> starts at minus infinity; \<^verbatim>\<open>best_split\<close> starts at None.\<close>

datatype best_gain = NegInf | Gain real

fun exceeds :: "real \<Rightarrow> best_gain \<Rightarrow> bool" where
  "exceeds g NegInf = True"
| "exceeds g (Gain b) = (b < g)"

record split =
  feature_idx :: nat
  threshold :: real
  left_y :: "int list"
  right_y :: "int list"

type_synonym search_state = "best_gain \<times> split option"

text \<open>The body of the inner loop, for one feature index and one threshold.\<close>

definition try_threshold ::
  "arith \<Rightarrow> real list list \<Rightarrow> int list \<Rightarrow> nat \<Rightarrow> real \<Rightarrow> search_state
     \<Rightarrow> error + search_state" where
  "try_threshold ar X y f t s =
     (let left_mask = map (\<lambda>v. v \<le> t) (column X f);
          right_mask = map Not left_mask
      in case mask_select y left_mask of Inl e \<Rightarrow> Inl e | Inr ly \<Rightarrow>
         case mask_select y right_mask of Inl e \<Rightarrow> Inl e | Inr ry \<Rightarrow>
         case information_gain ar y ly ry of Inl e \<Rightarrow> Inl e | Inr info_gain \<Rightarrow>
         if exceeds info_gain (fst s)
         then Inr (Gain info_gain,
                   Some \<lparr>feature_idx = f, threshold = t, left_y = ly, right_y = ry\<rparr>)
         else Inr s)"

text \<open>A \<^verbatim>\<open>for\<close> loop whose body may raise.\<close>

fun for_each :: "('a \<Rightarrow> 's \<Rightarrow> error + 's) \<Rightarrow> 'a list \<Rightarrow> 's \<Rightarrow> error + 's" where
  "for_each body [] s = Inr s"
| "for_each body (x # xs) s =
     (case body x s of Inl e \<Rightarrow> Inl e | Inr s' \<Rightarrow> for_each body xs s')"

definition search :: "arith \<Rightarrow> real list list \<Rightarrow> int list \<Rightarrow> error + search_state" where
  "search ar X y =
     for_each (\<lambda>f. for_each (try_threshold ar X y f) (unique (column X f)))
       [0..<num_features X] (NegInf, None)"

section \<open>Building the tree\<close>

text \<open>\<^verbatim>\<open>self.max_depth and depth >= self.max_depth\<close>: None and 0 are both falsy.\<close>

definition depth_reached :: "int option \<Rightarrow> nat \<Rightarrow> bool" where
  "depth_reached md depth =
     (case md of None \<Rightarrow> False | Some m \<Rightarrow> m \<noteq> 0 \<and> m \<le> int depth)"

text \<open>
  \<^verbatim>\<open>_build_tree\<close>. The argument \<open>limit\<close> bounds the number of nested calls, as the
  interpreter's recursion limit does: when it is used up the call raises
  \<^verbatim>\<open>RecursionError\<close>.
\<close>

fun build_tree ::
  "arith \<Rightarrow> nat \<Rightarrow> int option \<Rightarrow> real list list \<Rightarrow> int list \<Rightarrow> nat \<Rightarrow> error + node" where
  "build_tree ar 0 md X y depth = Inl RecursionError"
| "build_tree ar (Suc limit) md X y depth =
     (let unique_classes = unique y in
      if length unique_classes = 1 then Inr (Leaf (unique_classes ! 0))
      else if length X = 0 \<or> depth_reached md depth
      then (case bincount_argmax y of Inl e \<Rightarrow> Inl e | Inr c \<Rightarrow> Inr (Leaf c))
      else
        (case search ar X y of Inl e \<Rightarrow> Inl e
         | Inr (best_info_gain, None) \<Rightarrow>
             (case bincount_argmax y of Inl e \<Rightarrow> Inl e | Inr c \<Rightarrow> Inr (Leaf c))
         | Inr (best_info_gain, Some best_split) \<Rightarrow>
             (case take_rows X (left_y best_split) of Inl e \<Rightarrow> Inl e | Inr XL \<Rightarrow>
              case build_tree ar limit md XL (left_y best_split) (depth + 1) of
                Inl e \<Rightarrow> Inl e | Inr left_tree \<Rightarrow>
              case take_rows X (right_y best_split) of Inl e \<Rightarrow> Inl e | Inr XR \<Rightarrow>
              case build_tree ar limit md XR (right_y best_split) (depth + 1) of
                Inl e \<Rightarrow> Inl e | Inr right_tree \<Rightarrow>
              Inr (Internal (feature_idx best_split) (threshold best_split)
                     left_tree right_tree))))"

definition fit ::
  "arith \<Rightarrow> nat \<Rightarrow> CustomDecisionTree \<Rightarrow> real list list \<Rightarrow> int list
     \<Rightarrow> error + CustomDecisionTree" where
  "fit ar limit self X y =
     (case build_tree ar limit (max_depth self) X y 0 of
        Inl e \<Rightarrow> Inl e
      | Inr t \<Rightarrow> Inr (self\<lparr>tree := Some t\<rparr>))"

section \<open>Prediction\<close>

text \<open>\<^verbatim>\<open>_predict_single\<close>: the membership test \<^verbatim>\<open>'class' in tree\<close> raises a TypeError
  when the tree is None; reading \<^verbatim>\<open>x[feature_idx]\<close> past the end raises an IndexError.\<close>

fun predict_single :: "real list \<Rightarrow> node option \<Rightarrow> error + int" where
  "predict_single x None = Inl TypeError"
| "predict_single x (Some (Leaf c)) = Inr c"
| "predict_single x (Some (Internal f t left_tree right_tree)) =
     (if length x \<le> f then Inl IndexError
      else if x ! f \<le> t then predict_single x (Some left_tree)
      else predict_single x (Some right_tree))"

text \<open>A list comprehension whose element expression may raise.\<close>

fun comprehension :: "('a \<Rightarrow> error + 'b) \<Rightarrow> 'a list \<Rightarrow> error + 'b list" where
  "comprehension g [] = Inr []"
| "comprehension g (x # xs) =
     (case g x of Inl e \<Rightarrow> Inl e
      | Inr v \<Rightarrow> (case comprehension g xs of Inl e \<Rightarrow> Inl e | Inr vs \<Rightarrow> Inr (v # vs)))"

definition predict :: "CustomDecisionTree \<Rightarrow> real list list \<Rightarrow> error + int list" where
  "predict self X = comprehension (\<lambda>x. predict_single x (tree self)) X"

section \<open>The search as an enumeration of candidates\<close>

text \<open>
  The two nested loops examine the candidates (feature index, threshold) in one fixed
  order. The definitions below name that order, the label partition of a candidate and
  its information gain, all computed by the functions of the class in the given
  arithmetic, so that the properties of the loops can be stated.
\<close>

definition candidates :: "real list list \<Rightarrow> (nat \<times> real) list" where
  "candidates X =
     concat (map (\<lambda>f. map (Pair f) (unique (column X f))) [0..<num_features X])"

definition partition_y ::
  "real list list \<Rightarrow> int list \<Rightarrow> nat \<times> real \<Rightarrow> error + int list \<times> int list" where
  "partition_y X y c =
     (let left_mask = map (\<lambda>v. v \<le> snd c) (column X (fst c))
      in case mask_select y left_mask of Inl e \<Rightarrow> Inl e | Inr ly \<Rightarrow>
         case mask_select y (map Not left_mask) of Inl e \<Rightarrow> Inl e | Inr ry \<Rightarrow>
         Inr (ly, ry))"

definition candidate_gain ::
  "arith \<Rightarrow> real list list \<Rightarrow> int list \<Rightarrow> nat \<times> real \<Rightarrow> error + real" where
  "candidate_gain ar X y c =
     (case partition_y X y c of Inl e \<Rightarrow> Inl e
      | Inr (ly, ry) \<Rightarrow> information_gain ar y ly ry)"

definition candidate_split :: "nat \<times> real \<Rightarrow> int list \<times> int list \<Rightarrow> split" where
  "candidate_split c p = \<lparr>feature_idx = fst c, threshold = snd c, left_y = fst p, right_y = snd p\<rparr>"

definition first_best ::
  "arith \<Rightarrow> real list list \<Rightarrow> int list \<Rightarrow> (nat \<times> real) list \<Rightarrow> nat \<Rightarrow> real \<Rightarrow> bool" where
  "first_best ar X y cs i g =
     (i < length cs \<and> candidate_gain ar X y (cs ! i) = Inr g \<and>
      (\<forall>j<length cs. \<exists>g'. candidate_gain ar X y (cs ! j) = Inr g' \<and> g' \<le> g \<and>
           (j < i \<longrightarrow> g' < g)))"

definition scanned ::
  "arith \<Rightarrow> real list list \<Rightarrow> int list \<Rightarrow> (nat \<times> real) list \<Rightarrow> search_state \<Rightarrow> bool" where
  "scanned ar X y cs s =
     ((cs = [] \<and> s = (NegInf, None)) \<or>
      (\<exists>i g p. first_best ar X y cs i g \<and> partition_y X y (cs ! i) = Inr p \<and>
         s = (Gain g, Some (candidate_split (cs ! i) p))))"

fun gain_le :: "best_gain \<Rightarrow> best_gain \<Rightarrow> bool" where
  "gain_le NegInf b = True"
| "gain_le (Gain a) NegInf = False"
| "gain_le (Gain a) (Gain b) = (a \<le> b)"


text \<open>
  An arithmetic computes the gains of a training set within \<open>\<delta>\<close> when the gain of every
  candidate differs by at most \<open>\<delta>\<close> from the gain in real arithmetic.
\<close>

definition close_gains :: "arith \<Rightarrow> real list list \<Rightarrow> int list \<Rightarrow> real \<Rightarrow> bool" where
  "close_gains ar X y \<delta> =
     list_all (\<lambda>c. \<exists>g e. candidate_gain ar X y c = Inr g \<and>
                      candidate_gain real_arith X y c = Inr e \<and> \<bar>g - e\<bar> \<le> \<delta>)
       (candidates X)"

text \<open>
  The sub-matrices that the boolean mask of a split would select: the rows with
  feature value at most the threshold, and the other rows. The class does not compute
  them; they are here to be compared with what the recursion receives.
\<close>

definition mask_rows :: "real list list \<Rightarrow> nat \<Rightarrow> real \<Rightarrow> real list list \<times> real list list" where
  "mask_rows X f t = (filter (\<lambda>row. row ! f \<le> t) X, filter (\<lambda>row. \<not> row ! f \<le> t) X)"

section \<open>Properties of the loops\<close>

lemma for_each_append:
  "for_each body (xs @ ys) s =
     (case for_each body xs s of Inl e \<Rightarrow> Inl e | Inr s' \<Rightarrow> for_each body ys s')"
  by (induction xs arbitrary: s) (auto split: sum.splits)

lemma for_each_concat:
  "for_each (\<lambda>f. for_each (body f) (g f)) fs s =
   for_each (\<lambda>c. body (fst c) (snd c)) (concat (map (\<lambda>f. map (Pair f) (g f)) fs)) s"
proof (induction fs arbitrary: s)
  case Nil
  show ?case by simp
next
  case (Cons f fs)
  have inner: "for_each (\<lambda>c. body (fst c) (snd c)) (map (Pair f) ts) s' = for_each (body f) ts s'"
    for ts s'
    by (induction ts arbitrary: s') (auto split: sum.splits)
  show ?case
    by (simp add: for_each_append inner Cons.IH split: sum.splits)
qed

lemma search_candidates:
  "search ar X y = for_each (\<lambda>c. try_threshold ar X y (fst c) (snd c)) (candidates X) (NegInf, None)"
  unfolding search_def candidates_def by (rule for_each_concat)

lemma try_threshold_candidate:
  "try_threshold ar X y (fst c) (snd c) s =
     (case partition_y X y c of Inl e \<Rightarrow> Inl e
      | Inr p \<Rightarrow>
         (case information_gain ar y (fst p) (snd p) of Inl e \<Rightarrow> Inl e
          | Inr g \<Rightarrow> if exceeds g (fst s) then Inr (Gain g, Some (candidate_split c p)) else Inr s))"
  by (simp add: try_threshold_def partition_y_def candidate_split_def Let_def split: sum.splits)

lemma scan_invariant:
  "for_each (\<lambda>c. try_threshold ar X y (fst c) (snd c)) cs (NegInf, None) = Inr s \<Longrightarrow> scanned ar X y cs s"
proof (induction cs arbitrary: s rule: rev_induct)
  case Nil
  then show ?case by (simp add: scanned_def)
next
  case (snoc c cs)
  from snoc.prems obtain s0 where
    pre: "for_each (\<lambda>c. try_threshold ar X y (fst c) (snd c)) cs (NegInf, None) = Inr s0"
    and step: "try_threshold ar X y (fst c) (snd c) s0 = Inr s"
    by (auto simp: for_each_append split: sum.splits)
  from step obtain p g where p: "partition_y X y c = Inr p"
    and g: "information_gain ar y (fst p) (snd p) = Inr g"
    and s: "s = (if exceeds g (fst s0) then (Gain g, Some (candidate_split c p)) else s0)"
    by (auto simp: try_threshold_candidate split: sum.splits if_splits)
  have cg: "candidate_gain ar X y c = Inr g"
    using p g by (cases p) (simp add: candidate_gain_def)
  have inv: "scanned ar X y cs s0" using snoc.IH [OF pre] .
  show ?case
  proof (cases "cs = []")
    case True
    with inv have "s0 = (NegInf, None)" by (auto simp: scanned_def first_best_def)
    with s have "s = (Gain g, Some (candidate_split c p))" by simp
    moreover have "first_best ar X y [c] 0 g" using cg by (simp add: first_best_def)
    ultimately show ?thesis using True p
      unfolding scanned_def by (intro disjI2 exI [of _ 0] exI [of _ g] exI [of _ p]) simp
  next
    case False
    with inv obtain i g0 p0 where fb: "first_best ar X y cs i g0"
      and p0: "partition_y X y (cs ! i) = Inr p0"
      and s0: "s0 = (Gain g0, Some (candidate_split (cs ! i) p0))"
      by (auto simp: scanned_def)
    from fb have i: "i < length cs" by (simp add: first_best_def)
    show ?thesis
    proof (cases "g0 < g")
      case True
      with s s0 have s': "s = (Gain g, Some (candidate_split c p))" by simp
      have "first_best ar X y (cs @ [c]) (length cs) g"
        unfolding first_best_def
      proof (intro conjI allI impI)
        fix j assume "j < length (cs @ [c])"
        then consider "j < length cs" | "j = length cs" by force
        then show "\<exists>g'. candidate_gain ar X y ((cs @ [c]) ! j) = Inr g' \<and> g' \<le> g \<and> (j < length cs \<longrightarrow> g' < g)"
        proof cases
          case 1
          with fb obtain g' where "candidate_gain ar X y (cs ! j) = Inr g'" "g' \<le> g0"
            by (auto simp: first_best_def)
          with 1 True show ?thesis by (auto simp: nth_append)
        next
          case 2
          with cg show ?thesis by simp
        qed
      qed (simp_all add: cg)
      with s' p show ?thesis
        unfolding scanned_def
        by (intro disjI2 exI [of _ "length cs"] exI [of _ g] exI [of _ p]) simp
    next
      case False
      with s s0 have s': "s = (Gain g0, Some (candidate_split (cs ! i) p0))" by simp
      have "first_best ar X y (cs @ [c]) i g0"
        unfolding first_best_def
      proof (intro conjI allI impI)
        show "i < length (cs @ [c])" using i by simp
        show "candidate_gain ar X y ((cs @ [c]) ! i) = Inr g0"
          using fb i by (simp add: first_best_def nth_append)
        fix j assume "j < length (cs @ [c])"
        then consider "j < length cs" | "j = length cs" by force
        then show "\<exists>g'. candidate_gain ar X y ((cs @ [c]) ! j) = Inr g' \<and> g' \<le> g0 \<and> (j < i \<longrightarrow> g' < g0)"
        proof cases
          case 1
          with fb show ?thesis by (auto simp: first_best_def nth_append)
        next
          case 2
          with cg False i show ?thesis by simp
        qed
      qed
      with s' p0 i show ?thesis
        unfolding scanned_def
        by (intro disjI2 exI [of _ i] exI [of _ g0] exI [of _ p0]) (simp add: nth_append)
    qed
  qed
qed

lemma gain_le_refl: "gain_le b b"
  by (cases b) simp_all

lemma gain_le_trans: "gain_le a b \<Longrightarrow> gain_le b c \<Longrightarrow> gain_le a c"
  by (cases a; cases b; cases c) simp_all

lemma try_threshold_mono: "try_threshold ar X y f t s = Inr s' \<Longrightarrow> gain_le (fst s) (fst s')"
  by (cases "fst s")
     (auto simp: try_threshold_def Let_def gain_le_refl split: sum.splits if_splits)

lemma for_each_mono:
  assumes "\<And>x s s'. body x s = Inr s' \<Longrightarrow> gain_le (fst s) (fst s')"
  shows "for_each body xs s = Inr s' \<Longrightarrow> gain_le (fst s) (fst s')"
proof (induction xs arbitrary: s)
  case Nil
  then show ?case by (simp add: gain_le_refl)
next
  case (Cons x xs)
  then obtain s1 where "body x s = Inr s1" "for_each body xs s1 = Inr s'"
    by (auto split: sum.splits)
  then show ?case using assms Cons.IH gain_le_trans by blast
qed

lemma for_each_candidates_mono:
  "for_each (\<lambda>c. try_threshold ar X y (fst c) (snd c)) cs s = Inr s' \<Longrightarrow> gain_le (fst s) (fst s')"
  by (rule for_each_mono [where body = "\<lambda>c. try_threshold ar X y (fst c) (snd c)"])
     (rule try_threshold_mono)

lemma set_unique [simp]: "set (unique xs) = set xs"
  by (simp add: unique_def)

lemma set_candidates:
  "set (candidates X) = {c. fst c < num_features X \<and> snd c \<in> set (column X (fst c))}"
  by (auto simp: candidates_def)

lemma length_column [simp]: "length (column X f) = length X"
  by (simp add: column_def)


lemma search_scanned: "search ar X y = Inr s \<Longrightarrow> scanned ar X y (candidates X) s"
  unfolding search_candidates by (rule scan_invariant)

lemma search_found:
  assumes "search ar X y = Inr (b, Some sp)"
  obtains i g p where "first_best ar X y (candidates X) i g"
    and "partition_y X y (candidates X ! i) = Inr p"
    and "b = Gain g" and "sp = candidate_split (candidates X ! i) p"
  using search_scanned [OF assms] by (auto simp: scanned_def)

section \<open>Partitions of a candidate\<close>

lemma partition_y_lengths:
  "partition_y X y c = Inr p \<Longrightarrow> length y = length X"
  by (auto simp: partition_y_def mask_select_def Let_def split: if_splits)

lemma filter_zip_all:
  "length ms = length ys \<Longrightarrow> \<forall>m\<in>set ms. m \<Longrightarrow> map fst (filter snd (zip ys ms)) = ys"
  by (induction ys ms rule: list_induct2') auto

lemma filter_zip_none:
  "\<forall>m\<in>set ms. \<not> m \<Longrightarrow> filter snd (zip ys ms) = []"
  by (induction ys ms rule: list_induct2') auto

lemma filter_zip_Not_empty:
  "length ms = length ys \<Longrightarrow> filter snd (zip ys (map Not ms)) = [] \<Longrightarrow> \<forall>m\<in>set ms. m"
  by (induction ms ys rule: list_induct2) (auto split: if_splits)

lemma partition_y_max:
  assumes "length y = length X" "X \<noteq> []"
  shows "partition_y X y (f, Max (set (column X f))) = Inr (y, [])"
proof -
  have "\<forall>v\<in>set (column X f). v \<le> Max (set (column X f))" by simp
  then have "\<forall>m\<in>set (map (\<lambda>v. v \<le> Max (set (column X f))) (column X f)). m" by simp
  then show ?thesis using assms
    by (simp add: partition_y_def mask_select_def filter_zip_all filter_zip_none)
qed

lemma partition_y_left_nonempty:
  assumes "c \<in> set (candidates X)" "partition_y X y c = Inr p"
  shows "fst p \<noteq> []"
proof -
  from assms(1) have "snd c \<in> set (column X (fst c))" by (simp add: set_candidates)
  then obtain k where k: "k < length X" "column X (fst c) ! k = snd c"
    by (auto simp: in_set_conv_nth)
  have len: "length y = length X" using assms(2) by (rule partition_y_lengths)
  let ?ms = "map (\<lambda>v. v \<le> snd c) (column X (fst c))"
  have "(y ! k, True) \<in> set (zip y ?ms)"
    using k len by (auto simp: set_zip intro!: exI [of _ k])
  then have "(y ! k, True) \<in> set (filter snd (zip y ?ms))" by simp
  then have "filter snd (zip y ?ms) \<noteq> []" by (metis empty_iff empty_set)
  moreover have "fst p = map fst (filter snd (zip y ?ms))"
    using assms(2) by (auto simp: partition_y_def mask_select_def Let_def split: if_splits)
  ultimately show ?thesis by simp
qed

lemma partition_y_right_empty:
  assumes "partition_y X y c = Inr (ly, [])"
  shows "ly = y"
proof -
  let ?ms = "map (\<lambda>v. v \<le> snd c) (column X (fst c))"
  have len: "length ?ms = length y" using partition_y_lengths [OF assms] by simp
  have ly: "ly = map fst (filter snd (zip y ?ms))"
    and "map fst (filter snd (zip y (map Not ?ms))) = []"
    using assms by (auto simp: partition_y_def mask_select_def Let_def split: if_splits)
  then have "filter snd (zip y (map Not ?ms)) = []" by simp
  then have "\<forall>m\<in>set ?ms. m" using len by (rule filter_zip_Not_empty [rotated])
  then show ?thesis using ly len by (simp add: filter_zip_all)
qed

lemma entropy_Nil: "entropy ar [] = Inr (- fsum ar [])"
  by (simp add: entropy_def bincount_def)

lemma information_gain_trivial:
  assumes "ieee_exact ar" "information_gain ar y y [] = Inr g"
  shows "g = 0"
proof -
  from assms(2) obtain h where h: "entropy ar y = Inr h" and y: "0 < length y"
    and g: "g = fsub ar h (fadd ar (fmul ar (fdiv ar (length y) (length y)) h)
                                   (fmul ar (fdiv ar 0 (length y)) (- fsum ar [])))"
    by (auto simp: information_gain_def entropy_Nil split: sum.splits if_splits)
  from h obtain xs where xs: "h = - fsum ar xs"
    by (auto simp: entropy_def Let_def split: sum.splits)
  from assms(1) y have "fdiv ar (length y) (length y) = 1" "fdiv ar 0 (length y) = 0"
    "fsum ar [] = 0" "fmul ar 0 0 = 0"
    by (simp_all add: ieee_exact_def)
  moreover from assms(1) have "fmul ar 1 h = h" "fadd ar h 0 = h" "fsub ar h h = 0"
    unfolding xs by (simp_all add: ieee_exact_def)
  ultimately show ?thesis using g by simp
qed

lemma ieee_exact_real: "ieee_exact real_arith"
  by (simp add: ieee_exact_def real_arith_def)

lemma search_gain_greatest:
  assumes "search ar X y = Inr (b, Some sp)"
  shows "\<exists>g. b = Gain g \<and> information_gain ar y (left_y sp) (right_y sp) = Inr g \<and>
             (\<forall>c\<in>set (candidates X). \<exists>g'. candidate_gain ar X y c = Inr g' \<and> g' \<le> g) \<and>
             (ieee_exact ar \<longrightarrow> 0 \<le> g)"
proof -
  from assms obtain i g p where fb: "first_best ar X y (candidates X) i g"
    and p: "partition_y X y (candidates X ! i) = Inr p"
    and b: "b = Gain g" and sp: "sp = candidate_split (candidates X ! i) p"
    by (rule search_found)
  let ?cs = "candidates X"
  have i: "i < length ?cs" using fb by (simp add: first_best_def)
  have all: "\<exists>g'. candidate_gain ar X y c = Inr g' \<and> g' \<le> g" if "c \<in> set ?cs" for c
    using that fb by (auto simp: first_best_def in_set_conv_nth)
  have gi: "information_gain ar y (left_y sp) (right_y sp) = Inr g"
    using fb p by (cases p) (simp add: first_best_def candidate_gain_def sp candidate_split_def)
  have "0 \<le> g" if ex: "ieee_exact ar"
  proof -
    obtain f t where c: "?cs ! i = (f, t)" by (cases "?cs ! i")
    with i have "(f, t) \<in> set ?cs" by (metis nth_mem)
    then have f: "f < num_features X" and t: "t \<in> set (column X f)"
      by (simp_all add: set_candidates)
    from t have X: "X \<noteq> []" by (auto simp: column_def)
    have len: "length y = length X" using p by (rule partition_y_lengths)
    let ?m = "Max (set (column X f))"
    have "?m \<in> set (column X f)" using X by (simp add: column_def)
    with f have "(f, ?m) \<in> set ?cs" by (simp add: set_candidates)
    from all [OF this] obtain g' where g': "candidate_gain ar X y (f, ?m) = Inr g'" "g' \<le> g"
      by blast
    from g'(1) have "information_gain ar y y [] = Inr g'"
      by (simp add: candidate_gain_def partition_y_max [OF len X])
    with ex have "g' = 0" by (rule information_gain_trivial)
    with g' show ?thesis by simp
  qed
  with b gi all show ?thesis by auto
qed

lemma search_left_nonempty:
  assumes "search ar X y = Inr (b, Some sp)"
  shows "left_y sp \<noteq> []"
    and "right_y sp = [] \<Longrightarrow> left_y sp = y \<and> (ieee_exact ar \<longrightarrow> b = Gain 0)"
proof -
  from assms obtain i g p where fb: "first_best ar X y (candidates X) i g"
    and p: "partition_y X y (candidates X ! i) = Inr p"
    and b: "b = Gain g" and sp: "sp = candidate_split (candidates X ! i) p"
    by (rule search_found)
  have i: "candidates X ! i \<in> set (candidates X)" using fb by (simp add: first_best_def)
  from partition_y_left_nonempty [OF i p] show "left_y sp \<noteq> []"
    by (simp add: sp candidate_split_def)
  assume "right_y sp = []"
  then have p': "partition_y X y (candidates X ! i) = Inr (left_y sp, [])"
    using p by (cases p) (simp add: sp candidate_split_def)
  then have ly: "left_y sp = y" by (rule partition_y_right_empty)
  have "candidate_gain ar X y (candidates X ! i) = Inr g" using fb by (simp add: first_best_def)
  with p' ly have "information_gain ar y y [] = Inr g" by (simp add: candidate_gain_def)
  then have "g = 0" if "ieee_exact ar" using that by (rule information_gain_trivial [rotated])
  with ly b show "left_y sp = y \<and> (ieee_exact ar \<longrightarrow> b = Gain 0)" by simp
qed

lemma information_gain_labels:
  assumes "information_gain ar y l r = Inr g"
  shows "list_all (\<lambda>v. 0 \<le> v) l" and "list_all (\<lambda>v. 0 \<le> v) r"
  using assms
  by (auto simp: information_gain_def entropy_def bincount_def list_all_iff list_ex_iff
      split: sum.splits if_splits)

lemma take_rows_labels:
  assumes "list_all (\<lambda>v. 0 \<le> v) idx"
  shows "take_rows X idx =
     (if list_all (\<lambda>v. v < int (length X)) idx then Inr (map (\<lambda>v. X ! nat v) idx)
      else Inl IndexError)"
proof -
  have "list_all (\<lambda>i. - int (length X) \<le> i \<and> i < int (length X)) idx =
        list_all (\<lambda>v. v < int (length X)) idx"
    using assms by (auto simp: list_all_iff)
  moreover have "map (\<lambda>i. X ! nat (if i < 0 then i + int (length X) else i)) idx =
                 map (\<lambda>v. X ! nat v) idx"
    using assms by (auto simp: list_all_iff)
  ultimately show ?thesis by (simp add: take_rows_def)
qed

lemma for_each_total:
  assumes "\<forall>c\<in>set cs. \<exists>g. candidate_gain ar X y c = Inr g"
  shows "\<exists>s'. for_each (\<lambda>c. try_threshold ar X y (fst c) (snd c)) cs s = Inr s'"
  using assms
proof (induction cs arbitrary: s)
  case Nil
  show ?case by simp
next
  case (Cons c cs)
  from Cons.prems obtain g where "candidate_gain ar X y c = Inr g" by auto
  then obtain p where "partition_y X y c = Inr p" "information_gain ar y (fst p) (snd p) = Inr g"
    by (auto simp: candidate_gain_def split: sum.splits prod.splits)
  then have "\<exists>s1. try_threshold ar X y (fst c) (snd c) s = Inr s1"
    by (simp add: try_threshold_candidate)
  then obtain s1 where "try_threshold ar X y (fst c) (snd c) s = Inr s1" ..
  moreover from Cons.prems have "\<forall>c\<in>set cs. \<exists>g. candidate_gain ar X y c = Inr g" by simp
  from Cons.IH [OF this, of s1]
  obtain s' where "for_each (\<lambda>c. try_threshold ar X y (fst c) (snd c)) cs s1 = Inr s'" ..
  ultimately show ?case by simp
qed

lemma dominant_candidate:
  assumes close: "close_gains ar X y \<delta>"
    and c: "c \<in> set (candidates X)"
    and e: "candidate_gain real_arith X y c = Inr e"
    and dom: "\<forall>d\<in>set (candidates X). d \<noteq> c \<longrightarrow>
                (\<exists>e'. candidate_gain real_arith X y d = Inr e' \<and> e' + 2 * \<delta> < e)"
    and p: "partition_y X y c = Inr p"
  shows "\<exists>g. search ar X y = Inr (Gain g, Some (candidate_split c p)) \<and> \<bar>g - e\<bar> \<le> \<delta>"
proof -
  let ?cs = "candidates X"
  have near: "\<exists>g e'. candidate_gain ar X y d = Inr g \<and>
      candidate_gain real_arith X y d = Inr e' \<and> \<bar>g - e'\<bar> \<le> \<delta>" if "d \<in> set ?cs" for d
    using close that by (auto simp: close_gains_def list_all_iff)
  then have "\<forall>d\<in>set ?cs. \<exists>g. candidate_gain ar X y d = Inr g" by blast
  from for_each_total [OF this] obtain s where s: "search ar X y = Inr s"
    unfolding search_candidates by blast
  from search_scanned [OF s] c obtain i g q where fb: "first_best ar X y ?cs i g"
    and q: "partition_y X y (?cs ! i) = Inr q"
    and s': "s = (Gain g, Some (candidate_split (?cs ! i) q))"
    by (auto simp: scanned_def)
  from fb have i: "i < length ?cs" and gi: "candidate_gain ar X y (?cs ! i) = Inr g"
    by (simp_all add: first_best_def)
  from near [OF c] e obtain gc where gc: "candidate_gain ar X y c = Inr gc" "\<bar>gc - e\<bar> \<le> \<delta>"
    by auto
  from c obtain k where k: "k < length ?cs" "?cs ! k = c" by (auto simp: in_set_conv_nth)
  with fb gc(1) have le: "gc \<le> g" by (auto simp: first_best_def)
  have "?cs ! i = c"
  proof (rule ccontr)
    assume ne: "?cs ! i \<noteq> c"
    from i have mem: "?cs ! i \<in> set ?cs" by simp
    from dom mem ne obtain e' where e': "candidate_gain real_arith X y (?cs ! i) = Inr e'"
      "e' + 2 * \<delta> < e" by blast
    from near [OF mem] gi e'(1) have "\<bar>g - e'\<bar> \<le> \<delta>" by auto
    with e'(2) gc(2) le show False by linarith
  qed
  with q p gi gc s s' show ?thesis by auto
qed

section \<open>Entropy as a sum over the classes\<close>

lemma bincount_nonneg:
  assumes "y \<noteq> []" "\<forall>v\<in>set y. 0 \<le> v"
  shows "bincount y = Inr (map (\<lambda>v. count_list y (int v)) [0..<Suc (nat (Max (set y)))])"
  using assms by (auto simp: bincount_def list_ex_iff)

lemma entropy_sum:
  assumes "y \<noteq> []" "\<forall>v\<in>set y. 0 \<le> v"
  shows "entropy real_arith y =
    Inr (- (\<Sum>v<Suc (nat (Max (set y))). (real (count_list y (int v)) / real (length y)) *
              log 2 (real (count_list y (int v)) / real (length y) + 1 / 10 ^ 9)))"
proof -
  have "sum_list (map (\<lambda>v. g v) [0..<n]) = (\<Sum>v<n. g v)" for g :: "nat \<Rightarrow> real" and n
    by (simp add: interv_sum_list_conv_sum_set_nat atLeast0LessThan)
  then show ?thesis
    by (simp add: entropy_def real_arith_def bincount_nonneg [OF assms] Let_def comp_def del: upt_Suc)
qed

lemma count_list_all: "\<forall>x\<in>set y. x = c \<Longrightarrow> count_list y c = length y"
  by (induction y) auto

lemma count_list_less: "a \<in> set y \<Longrightarrow> a \<noteq> v \<Longrightarrow> count_list y v < length y"
proof (induction y)
  case Nil
  then show ?case by simp
next
  case (Cons x xs)
  have "count_list xs v \<le> length xs" by (rule count_le_length)
  with Cons show ?case by auto
qed

lemma count_list_replicate: "count_list (replicate n x) v = (if v = x then n else 0)"
  by (induction n) auto

lemma entropy_pure:
  assumes "set y = {c}" "0 \<le> c"
  shows "entropy real_arith y = Inr (- log 2 (1 + 1 / 10 ^ 9))"
proof -
  from assms have ne: "y \<noteq> []" and nn: "\<forall>v\<in>set y. 0 \<le> v" by auto
  have M: "Max (set y) = c" using assms by simp
  have cnt: "count_list y (int v) = (if v = nat c then length y else 0)" for v
    using assms by (auto simp: count_list_all count_list_0_iff)
  have "(\<Sum>v<Suc (nat c). (real (count_list y (int v)) / real (length y)) *
              log 2 (real (count_list y (int v)) / real (length y) + 1 / 10 ^ 9))
        = log 2 (1 + 1 / 10 ^ 9)"
    using ne by (simp add: cnt)
  then show ?thesis by (simp add: entropy_sum [OF ne nn] M)
qed

lemma entropy_mixed:
  assumes ab: "a \<in> set y" "b \<in> set y" "a \<noteq> b"
    and nn: "\<forall>v\<in>set y. 0 \<le> v"
    and freq: "\<forall>v\<in>set y. real (count_list y v) / real (length y) + 1 / 10 ^ 9 < 1"
  shows "\<exists>e. entropy real_arith y = Inr e \<and> 0 < e"
proof -
  from ab have ne: "y \<noteq> []" by auto
  let ?n = "real (length y)"
  let ?part = "\<lambda>v::nat. (real (count_list y (int v)) / ?n) *
              log 2 (real (count_list y (int v)) / ?n + 1 / 10 ^ 9)"
  let ?S = "{..<Suc (nat (Max (set y)))}"
  have n: "0 < ?n" using ne by simp
  have part_le: "?part v \<le> 0" for v
  proof (cases "count_list y (int v) = 0")
    case True
    then show ?thesis by simp
  next
    case False
    then have "int v \<in> set y" by (simp add: count_list_0_iff)
    with freq have "real (count_list y (int v)) / ?n + 1 / 10 ^ 9 < 1" by blast
    moreover have "0 < real (count_list y (int v)) / ?n + 1 / 10 ^ 9"
      by (simp add: add_nonneg_pos)
    ultimately have "log 2 (real (count_list y (int v)) / ?n + 1 / 10 ^ 9) \<le> 0" by simp
    moreover have "0 \<le> real (count_list y (int v)) / ?n" by simp
    ultimately show ?thesis by (rule mult_nonneg_nonpos [rotated])
  qed
  have part_less: "?part (nat a) < 0"
  proof -
    have a: "int (nat a) = a" using ab(1) nn by auto
    have "count_list y a \<noteq> 0" using ab(1) by (simp add: count_list_0_iff)
    then have "0 < count_list y a" by simp
    then have pos: "0 < real (count_list y a) / ?n" using n by simp
    from freq ab(1) have "real (count_list y a) / ?n + 1 / 10 ^ 9 < 1" by blast
    moreover have "0 < real (count_list y a) / ?n + 1 / 10 ^ 9" using pos by simp
    ultimately have "log 2 (real (count_list y a) / ?n + 1 / 10 ^ 9) < 0" by simp
    with pos have "real (count_list y a) / ?n *
        log 2 (real (count_list y a) / ?n + 1 / 10 ^ 9) < 0" by (rule mult_pos_neg)
    then show ?thesis by (simp only: a)
  qed
  have "a \<le> Max (set y)" using ab(1) by simp
  then have "nat a \<le> nat (Max (set y))" by (rule nat_mono)
  then have mem: "nat a \<in> ?S" by simp
  have "sum ?part ?S = ?part (nat a) + sum ?part (?S - {nat a})"
    by (rule sum.remove [OF finite_lessThan mem])
  moreover have "sum ?part (?S - {nat a}) \<le> 0" by (rule sum_nonpos) (rule part_le)
  ultimately have "sum ?part ?S < 0" using part_less by linarith
  then show ?thesis by (simp add: entropy_sum [OF ne nn])
qed

lemma small_vector_frequencies:
  assumes ab: "a \<in> set y" "b \<in> set y" "a \<noteq> b" and len: "length y < 10 ^ 9"
  shows "\<forall>v\<in>set y. real (count_list y v) / real (length y) + 1 / 10 ^ 9 < 1"
proof
  fix v assume "v \<in> set y"
  let ?n = "real (length y)"
  have n: "0 < ?n" using ab by (cases y) auto
  have "count_list y v < length y"
    using ab count_list_less [of a y v] count_list_less [of b y v] by auto
  then have "real (count_list y v) \<le> ?n - 1" by linarith
  then have "real (count_list y v) / ?n \<le> (?n - 1) / ?n" using n by (simp add: divide_right_mono)
  also have "\<dots> = 1 - 1 / ?n" using n by (simp add: diff_divide_distrib)
  finally have le: "real (count_list y v) / ?n \<le> 1 - 1 / ?n" .
  have "?n < 10 ^ 9" using len by (metis of_nat_less_iff of_nat_numeral of_nat_power)
  then have "1 / 10 ^ 9 < 1 / ?n" using n by (simp add: frac_less2)
  with le show "real (count_list y v) / ?n + 1 / 10 ^ 9 < 1" by linarith
qed

lemma entropy_two_classes:
  assumes "0 < N"
  shows "entropy real_arith (0 # replicate N 1) =
     Inr (- ((1 / real (N + 1)) * log 2 (1 / real (N + 1) + 1 / 10 ^ 9) +
             (real N / real (N + 1)) * log 2 (real N / real (N + 1) + 1 / 10 ^ 9)))"
proof -
  let ?y = "0 # replicate N (1::int)"
  have set: "set ?y = {0, 1}" using assms by auto
  have M: "Max (set ?y) = 1" unfolding set by simp
  have ne: "?y \<noteq> []" and nn: "\<forall>v\<in>set ?y. 0 \<le> v" unfolding set by simp_all
  have two: "{..<Suc (nat 1)} = {0, 1::nat}" by auto
  show ?thesis
    unfolding entropy_sum [OF ne nn] M two
    by (simp add: count_list_replicate)
qed

lemma entropy_unbalanced:
  "entropy real_arith (0 # replicate (10 ^ 12) 1) =
     Inr (- ((1 / (10 ^ 12 + 1)) * log 2 (1 / (10 ^ 12 + 1) + 1 / 10 ^ 9) +
             (10 ^ 12 / (10 ^ 12 + 1)) * log 2 (10 ^ 12 / (10 ^ 12 + 1) + 1 / 10 ^ 9)))"
  using entropy_two_classes [of "10 ^ 12"] by simp

lemma log_lower:
  "- 30 \<le> log 2 (1 / (10 ^ 12 + 1) + 1 / 10 ^ 9)"
proof -
  have "(2::real) powr (- 30) \<le> 1 / (10 ^ 12 + 1) + 1 / 10 ^ 9"
    by (simp add: powr_minus divide_simps)
  then show ?thesis by (subst le_log_iff) simp_all
qed

lemma log_upper:
  "2 / 10 ^ 10 \<le> log 2 (10 ^ 12 / (10 ^ 12 + 1) + 1 / 10 ^ 9)"
proof -
  let ?x = "5 / 10 ^ 10 :: real"
  have "?x - ?x\<^sup>2 \<le> ln (1 + ?x)" by (rule ln_one_plus_pos_lower_bound) simp_all
  then have a: "2 / 10 ^ 10 \<le> ln (1 + ?x)" by (simp add: power2_eq_square)
  have "ln (1 + ?x) \<le> ln (1 + ?x) / ln 2"
    using a ln_2_less_1 by (simp add: le_divide_eq)
  with a have "2 / 10 ^ 10 \<le> ln (1 + ?x) / ln 2" by linarith
  then have "2 / 10 ^ 10 \<le> log 2 (1 + ?x)" by (simp only: log_def)
  also have "log 2 (1 + ?x) \<le> log 2 (10 ^ 12 / (10 ^ 12 + 1) + 1 / 10 ^ 9)"
    by (subst log_le_cancel_iff) simp_all
  finally show ?thesis .
qed

lemma entropy_unbalanced_negative:
  "\<exists>e. entropy real_arith (0 # replicate (10 ^ 12) 1) = Inr e \<and> e < 0"
proof -
  let ?a = "log 2 (1 / (10 ^ 12 + 1) + 1 / 10 ^ 9) :: real"
  let ?b = "log 2 (10 ^ 12 / (10 ^ 12 + 1) + 1 / 10 ^ 9) :: real"
  have "(1 / (10 ^ 12 + 1)) * (- 30) \<le> (1 / (10 ^ 12 + 1)) * ?a"
    by (rule mult_left_mono [OF log_lower]) simp
  moreover have "(10 ^ 12 / (10 ^ 12 + 1)) * (2 / 10 ^ 10) \<le> (10 ^ 12 / (10 ^ 12 + 1)) * ?b"
    by (rule mult_left_mono [OF log_upper]) simp
  moreover have "(0::real) < (1 / (10 ^ 12 + 1)) * (- 30) + (10 ^ 12 / (10 ^ 12 + 1)) * (2 / 10 ^ 10)"
    by simp
  ultimately have "0 < (1 / (10 ^ 12 + 1)) * ?a + (10 ^ 12 / (10 ^ 12 + 1)) * ?b" by linarith
  then show ?thesis unfolding entropy_unbalanced by simp
qed

section \<open>Runs of the search and of the builder on small training sets\<close>

lemma log_values:
  "0 < log 2 (1000000001 / 1000000000)"
  "log 2 (500000001 / 1000000000) < 0"
  "log 2 (2000000003 / 3000000000) < 0"
  "log 2 (1000000003 / 3000000000) < 0"
  by simp_all

lemma gain_near_one:
  "\<bar>log 2 (1000000001 / 1000000000) - log 2 (500000001 / 1000000000) - 1\<bar> < 3 / 10 ^ 9"
proof -
  let ?u = "1 / 1000000001 :: real"
  have split: "log 2 (500000001 / 1000000000) = log 2 (1000000002 / 1000000000) - 1"
  proof -
    have "log 2 (1000000002 / 1000000000) = log 2 (2 * (500000001 / 1000000000))" by simp
    also have "\<dots> = log 2 2 + log 2 (500000001 / 1000000000)"
      by (subst log_mult_pos) simp_all
    finally show ?thesis by simp
  qed
  have diff: "log 2 (1000000002 / 1000000000) - log 2 (1000000001 / 1000000000) = log 2 (1 + ?u)"
  proof -
    have "log 2 (1000000002 / 1000000000) = log 2 ((1 + ?u) * (1000000001 / 1000000000))" by simp
    also have "\<dots> = log 2 (1 + ?u) + log 2 (1000000001 / 1000000000)"
      by (subst log_mult_pos) simp_all
    finally show ?thesis by simp
  qed
  have pos: "0 < log 2 (1 + ?u)" by simp
  have "ln (1 + ?u) \<le> ?u" by (rule ln_add_one_self_le_self) simp
  moreover have half: "1 / 2 \<le> ln (2::real)"
  proof -
    have "ln (1 / 2 :: real) \<le> 1 / 2 - 1" by (rule ln_le_minus_one) simp
    then show ?thesis by (simp add: ln_div)
  qed
  ultimately have "ln (1 + ?u) / ln 2 \<le> ?u / (1 / 2)"
    by (intro frac_le) simp_all
  then have "log 2 (1 + ?u) \<le> 2 * ?u" by (simp add: log_def)
  with pos split diff show ?thesis by simp
qed

lemma log2_below:
  assumes "0 < x" "x ^ n < 1 / 2 ^ m" "0 < n"
  shows "log 2 x < - (real m / real n)"
proof -
  have "real n * log 2 x = log 2 (x ^ n)" using assms(1) by (simp add: log_nat_power)
  also have "\<dots> < log 2 (1 / 2 ^ m)" using assms(1,2) by (subst log_less_cancel_iff) simp_all
  also have "\<dots> = - real m" by (simp add: log_divide log_nat_power)
  finally have "real n * log 2 x < - real m" .
  then show ?thesis using assms(3) by (simp add: field_simps)
qed

lemma log_bounds:
  "- 1 < log 2 (500000001 / 1000000000)"
  "log 2 (2000000003 / 3000000000) < - (1 / 2)"
  "log 2 (1000000003 / 3000000000) < - (3 / 2)"
  "log 2 (750000001 / 1000000000) < - (2 / 5)"
  "log 2 (250000001 / 1000000000) < - (3 / 2)"
proof -
  have "log 2 (1 / 2) < log 2 (500000001 / 1000000000)"
    by (subst log_less_cancel_iff) simp_all
  then show "- 1 < log 2 (500000001 / 1000000000)" by (simp add: log_divide)
  show "log 2 (2000000003 / 3000000000) < - (1 / 2)"
    using log2_below [of "2000000003 / 3000000000" 2 1] by (simp add: power2_eq_square)
  show "log 2 (1000000003 / 3000000000) < - (3 / 2)"
    using log2_below [of "1000000003 / 3000000000" 2 3] by (simp add: power2_eq_square)
  show "log 2 (750000001 / 1000000000) < - (2 / 5)"
    using log2_below [of "750000001 / 1000000000" 5 2] by (simp add: power_divide)
  show "log 2 (250000001 / 1000000000) < - (3 / 2)"
    using log2_below [of "250000001 / 1000000000" 2 3] by (simp add: power2_eq_square)
qed

lemma gain_above:
  "9 / 10 < log 2 (1000000001 / 1000000000) - log 2 (500000001 / 1000000000)"
proof -
  have "(3::real) / 10 ^ 9 < 1 / 10" by simp
  with gain_near_one show ?thesis by linarith
qed

lemmas gain_evaluation = candidate_gain_def partition_y_def column_def mask_select_def
  information_gain_def entropy_def bincount_def real_arith_def

lemma candidates_two_rows: "candidates [[1], [2]] = [(0, 1), (0, 2)]"
  by (simp add: candidates_def num_features_def column_def unique_def)

lemma candidates_four_rows: "candidates [[1], [2], [3], [4]] = [(0, 1), (0, 2), (0, 3), (0, 4)]"
  by (simp add: candidates_def num_features_def column_def unique_def)

lemma search_two_rows_close:
  assumes "close_gains ar [[1], [2]] [0, 1] \<delta>" "\<delta> \<le> 1 / 20"
  shows "\<exists>g. search ar [[1], [2]] [0, 1] =
           Inr (Gain g, Some \<lparr>feature_idx = 0, threshold = 1, left_y = [0], right_y = [1]\<rparr>) \<and>
         \<bar>g - (log 2 (1000000001 / 1000000000) - log 2 (500000001 / 1000000000))\<bar> \<le> \<delta>"
proof -
  have "\<forall>d\<in>set (candidates [[1], [2]]). d \<noteq> (0, 1) \<longrightarrow>
     (\<exists>e'. candidate_gain real_arith [[1], [2]] [0, 1] d = Inr e' \<and>
           e' + 2 * \<delta> < log 2 (1000000001 / 1000000000) - log 2 (500000001 / 1000000000))"
    apply (simp add: candidates_two_rows gain_evaluation)
    using gain_above assms(2) apply linarith
    done
  from dominant_candidate [OF assms(1) _ _ this, of "([0], [1])"] show ?thesis
    by (simp add: candidates_two_rows gain_evaluation candidate_split_def)
qed

lemma search_four_rows_close:
  assumes "close_gains ar [[1], [2], [3], [4]] [0, 0, 1, 1] \<delta>" "\<delta> \<le> 1 / 20"
  shows "\<exists>g. search ar [[1], [2], [3], [4]] [0, 0, 1, 1] =
           Inr (Gain g, Some \<lparr>feature_idx = 0, threshold = 2, left_y = [0, 0], right_y = [1, 1]\<rparr>) \<and>
         \<bar>g - (log 2 (1000000001 / 1000000000) - log 2 (500000001 / 1000000000))\<bar> \<le> \<delta>"
proof -
  have "\<forall>d\<in>set (candidates [[1], [2], [3], [4]]). d \<noteq> (0, 2) \<longrightarrow>
     (\<exists>e'. candidate_gain real_arith [[1], [2], [3], [4]] [0, 0, 1, 1] d = Inr e' \<and>
           e' + 2 * \<delta> < log 2 (1000000001 / 1000000000) - log 2 (500000001 / 1000000000))"
    apply (simp add: candidates_four_rows gain_evaluation)
    using gain_above assms(2) log_values log_bounds apply argo
    done
  from dominant_candidate [OF assms(1) _ _ this, of "([0, 0], [1, 1])"] show ?thesis
    by (simp add: candidates_four_rows gain_evaluation candidate_split_def)
qed

lemma search_two_rows:
  "search real_arith [[1], [2]] [0, 1] =
     Inr (Gain (log 2 (1000000001 / 1000000000) - log 2 (500000001 / 1000000000)),
          Some \<lparr>feature_idx = 0, threshold = 1, left_y = [0], right_y = [1]\<rparr>)"
  by (simp add: search_def num_features_def unique_def try_threshold_def column_def
      mask_select_def information_gain_def entropy_def real_arith_def bincount_def)

lemma search_equal_rows:
  "\<exists>g. search ar [[1], [1]] [0, 1] =
     Inr (Gain g, Some \<lparr>feature_idx = 0, threshold = 1, left_y = [0, 1], right_y = []\<rparr>)"
  by (simp add: search_def num_features_def unique_def try_threshold_def column_def
      mask_select_def information_gain_def entropy_def bincount_def)

lemma search_four_rows:
  "search real_arith [[1], [2], [3], [4]] [0, 0, 1, 1] =
     Inr (Gain (log 2 (1000000001 / 1000000000) - log 2 (500000001 / 1000000000)),
          Some \<lparr>feature_idx = 0, threshold = 2, left_y = [0, 0], right_y = [1, 1]\<rparr>)"
  apply (simp add: search_def num_features_def unique_def try_threshold_def column_def
      mask_select_def information_gain_def entropy_def real_arith_def bincount_def)
  using log_values apply argo
  done

lemma search_ten_rows:
  "\<exists>g. search ar [[5], [5], [5], [5], [5], [5], [5], [5], [5], [5]]
         [0, 0, 0, 0, 0, 1, 1, 1, 1, 1] =
     Inr (Gain g, Some \<lparr>feature_idx = 0, threshold = 5,
                        left_y = [0, 0, 0, 0, 0, 1, 1, 1, 1, 1], right_y = []\<rparr>)"
  by (simp add: search_def num_features_def unique_def try_threshold_def column_def
      mask_select_def information_gain_def entropy_def bincount_def)

lemma take_ten_rows:
  "take_rows [[5], [5], [5], [5], [5], [5], [5], [5], [5], [5]] [0, 0, 0, 0, 0, 1, 1, 1, 1, 1] =
     Inr [[5], [5], [5], [5], [5], [5], [5], [5], [5], [5::real]]"
  by (simp add: take_rows_def)

lemma unique_ten: "unique [0, 0, 0, 0, 0, 1, 1, 1, 1, 1 :: int] = [0, 1]"
  by (simp add: unique_def)

lemma build_two_rows:
  "\<not> depth_reached md depth \<Longrightarrow>
   build_tree real_arith (Suc (Suc limit)) md [[1], [2]] [0, 1] depth = Inr (Internal 0 1 (Leaf 0) (Leaf 1))"
  by (simp add: unique_def search_two_rows take_rows_def)

lemma build_tree_zero_limit:
  "build_tree ar limit (Some 0) X y depth = build_tree ar limit None X y depth"
proof (induction limit arbitrary: X y depth)
  case 0
  show ?case by simp
next
  case (Suc limit)
  show ?case
    by (simp add: depth_reached_def Suc.IH Let_def
        cong: sum.case_cong option.case_cong prod.case_cong if_cong)
qed

lemma first_step_four_rows:
  "try_threshold real_arith [[1], [2], [3], [4]] [0, 0, 1, 1] 0 1 (NegInf, None) =
   Inr (Gain (- log 2 (500000001 / 1000000000) -
              ((- log 2 (1000000003 / 3000000000) - 2 * log 2 (2000000003 / 3000000000)) / 4 -
               log 2 (1000000001 / 1000000000) / 4)),
        Some \<lparr>feature_idx = 0, threshold = 1, left_y = [0], right_y = [0, 1, 1]\<rparr>)"
  by (simp add: try_threshold_def column_def mask_select_def information_gain_def entropy_def real_arith_def
      bincount_def)

lemma second_step_four_rows:
  "try_threshold real_arith [[1], [2], [3], [4]] [0, 0, 1, 1] 0 2
     (Gain (- log 2 (500000001 / 1000000000) -
              ((- log 2 (1000000003 / 3000000000) - 2 * log 2 (2000000003 / 3000000000)) / 4 -
               log 2 (1000000001 / 1000000000) / 4)),
      Some \<lparr>feature_idx = 0, threshold = 1, left_y = [0], right_y = [0, 1, 1]\<rparr>) =
   Inr (Gain (log 2 (1000000001 / 1000000000) - log 2 (500000001 / 1000000000)),
        Some \<lparr>feature_idx = 0, threshold = 2, left_y = [0, 0], right_y = [1, 1]\<rparr>)"
  apply (simp add: try_threshold_def column_def mask_select_def information_gain_def entropy_def real_arith_def
      bincount_def)
  using log_values apply argo
  done

lemma build_tree_no_samples:
  "build_tree ar limit md [] [] depth = Inl (if limit = 0 then RecursionError else ValueError)"
  by (cases limit)
     (simp_all add: unique_def bincount_argmax_def bincount_def argmax_def)

lemma take_rows_Nil: "take_rows X [] = Inr []"
  by (simp add: take_rows_def)

lemma build_tree_Internal:
  assumes "build_tree ar limit md X y depth = Inr (Internal f t lt rt)"
  obtains l b sp XL XR where "limit = Suc l" "search ar X y = Inr (b, Some sp)"
    "f = feature_idx sp" "t = threshold sp"
    "take_rows X (left_y sp) = Inr XL" "build_tree ar l md XL (left_y sp) (depth + 1) = Inr lt"
    "take_rows X (right_y sp) = Inr XR" "build_tree ar l md XR (right_y sp) (depth + 1) = Inr rt"
proof (cases limit)
  case 0
  with assms show ?thesis by simp
next
  case (Suc l)
  with assms that show ?thesis
    by (auto simp: Let_def split: if_splits sum.splits option.splits prod.splits)
qed

lemma unique_single: "set y = {c} \<Longrightarrow> unique y = [c]"
proof -
  assume a: "set y = {c}"
  have "unique y = sorted_list_of_set (set y)"
    by (simp add: unique_def sorted_list_of_set_sort_remdups)
  then show ?thesis using a by simp
qed

lemma comprehension_const: "comprehension (\<lambda>x. Inr c) xs = Inr (map (\<lambda>x. c) xs)"
  by (induction xs) simp_all

lemma comprehension_fail: "xs \<noteq> [] \<Longrightarrow> comprehension (\<lambda>x. Inl e) xs = Inl e"
  by (cases xs) simp_all

lemma candidates_swapped_rows: "candidates [[2], [1]] = [(0, 1), (0, 2)]"
  by (simp add: candidates_def num_features_def column_def unique_def)

lemma search_swapped_rows_close:
  assumes "close_gains ar [[2], [1]] [1, 0] \<delta>" "\<delta> \<le> 1 / 20"
  shows "\<exists>g. search ar [[2], [1]] [1, 0] =
           Inr (Gain g, Some \<lparr>feature_idx = 0, threshold = 1, left_y = [0], right_y = [1]\<rparr>)"
proof -
  have "\<forall>d\<in>set (candidates [[2], [1]]). d \<noteq> (0, 1) \<longrightarrow>
     (\<exists>e'. candidate_gain real_arith [[2], [1]] [1, 0] d = Inr e' \<and>
           e' + 2 * \<delta> < log 2 (1000000001 / 1000000000) - log 2 (500000001 / 1000000000))"
    apply (simp add: candidates_swapped_rows gain_evaluation)
    using gain_above assms(2) apply linarith
    done
  from dominant_candidate [OF assms(1) _ _ this, of "([0], [1])"] show ?thesis
    by (auto simp: candidates_swapped_rows gain_evaluation candidate_split_def)
qed

lemma search_mixed_rows_close:
  assumes "close_gains ar [[1], [2], [3], [4]] [0, 0, 1, 0] \<delta>" "\<delta> \<le> 1 / 20"
  shows "\<exists>g. search ar [[1], [2], [3], [4]] [0, 0, 1, 0] =
           Inr (Gain g, Some \<lparr>feature_idx = 0, threshold = 2, left_y = [0, 0], right_y = [1, 0]\<rparr>)"
proof -
  let ?e = "- (3 * log 2 (750000001 / 1000000000) / 4) - log 2 (250000001 / 1000000000) / 4 -
     (- (log 2 (1000000001 / 1000000000) / 2) - log 2 (500000001 / 1000000000) / 2)"
  have "\<forall>d\<in>set (candidates [[1], [2], [3], [4]]). d \<noteq> (0, 2) \<longrightarrow>
     (\<exists>e'. candidate_gain real_arith [[1], [2], [3], [4]] [0, 0, 1, 0] d = Inr e' \<and>
           e' + 2 * \<delta> < ?e)"
    apply (simp add: candidates_four_rows gain_evaluation)
    using assms(2) log_values log_bounds apply argo
    done
  from dominant_candidate [OF assms(1) _ _ this, of "([0, 0], [1, 0])"] show ?thesis
    by (auto simp: candidates_four_rows gain_evaluation candidate_split_def)
qed

lemma build_two_rows_close:
  assumes "close_gains ar [[1], [2]] [0, 1] \<delta>" "\<delta> \<le> 1 / 20" "\<not> depth_reached md depth"
  shows "build_tree ar (Suc (Suc limit)) md [[1], [2]] [0, 1] depth =
           Inr (Internal 0 1 (Leaf 0) (Leaf 1))"
proof -
  from search_two_rows_close [OF assms(1,2)] obtain g where
    "search ar [[1], [2]] [0, 1] =
       Inr (Gain g, Some \<lparr>feature_idx = 0, threshold = 1, left_y = [0], right_y = [1]\<rparr>)"
    by blast
  then show ?thesis using assms(3) by (simp add: unique_def take_rows_def)
qed

lemma build_four_rows_close:
  assumes "close_gains ar [[1], [2], [3], [4]] [0, 0, 1, 1] \<delta>" "\<delta> \<le> 1 / 20"
    "\<not> depth_reached md depth"
  shows "build_tree ar (Suc (Suc limit)) md [[1], [2], [3], [4]] [0, 0, 1, 1] depth =
           Inr (Internal 0 2 (Leaf 0) (Leaf 1))"
proof -
  from search_four_rows_close [OF assms(1,2)] obtain g where
    "search ar [[1], [2], [3], [4]] [0, 0, 1, 1] =
       Inr (Gain g, Some \<lparr>feature_idx = 0, threshold = 2, left_y = [0, 0], right_y = [1, 1]\<rparr>)"
    by blast
  then show ?thesis using assms(3) by (simp add: unique_def take_rows_def)
qed

lemma build_mixed_rows_close:
  assumes "close_gains ar [[1], [2], [3], [4]] [0, 0, 1, 0] \<delta>"
    and "close_gains ar [[2], [1]] [1, 0] \<delta>" and "\<delta> \<le> 1 / 20"
  shows "build_tree ar (Suc (Suc (Suc limit))) None [[1], [2], [3], [4]] [0, 0, 1, 0] depth =
           Inr (Internal 0 2 (Leaf 0) (Internal 0 1 (Leaf 0) (Leaf 1)))"
proof -
  from search_mixed_rows_close [OF assms(1,3)] obtain g where
    "search ar [[1], [2], [3], [4]] [0, 0, 1, 0] =
       Inr (Gain g, Some \<lparr>feature_idx = 0, threshold = 2, left_y = [0, 0], right_y = [1, 0]\<rparr>)"
    by blast
  moreover from search_swapped_rows_close [OF assms(2,3)] obtain g' where
    "search ar [[2], [1]] [1, 0] =
       Inr (Gain g', Some \<lparr>feature_idx = 0, threshold = 1, left_y = [0], right_y = [1]\<rparr>)"
    by blast
  ultimately show ?thesis
    by (simp add: unique_def take_rows_def depth_reached_def)
qed

lemma close_gains_real:
  "close_gains real_arith [[1], [2]] [0, 1] 0"
  "close_gains real_arith [[1], [2], [3], [4]] [0, 0, 1, 1] 0"
  "close_gains real_arith [[1], [2], [3], [4]] [0, 0, 1, 0] 0"
  "close_gains real_arith [[2], [1]] [1, 0] 0"
  by (simp_all add: close_gains_def candidates_two_rows candidates_four_rows
      candidates_swapped_rows gain_evaluation)

lemma build_ten_rows:
  "build_tree ar limit None [[5], [5], [5], [5], [5], [5], [5], [5], [5], [5]]
     [0, 0, 0, 0, 0, 1, 1, 1, 1, 1] depth = Inl RecursionError"
proof (induction limit arbitrary: depth)
  case 0
  show ?case by simp
next
  case (Suc limit)
  obtain g where "search ar [[5], [5], [5], [5], [5], [5], [5], [5], [5], [5]]
         [0, 0, 0, 0, 0, 1, 1, 1, 1, 1] =
     Inr (Gain g, Some \<lparr>feature_idx = 0, threshold = 5,
                        left_y = [0, 0, 0, 0, 0, 1, 1, 1, 1, 1], right_y = []\<rparr>)"
    using search_ten_rows by blast
  then show ?case
    by (simp add: unique_ten depth_reached_def take_ten_rows Suc.IH)
qed

lemma build_equal_rows:
  "build_tree ar limit None [[1], [1]] [0, 1] depth = Inl RecursionError"
proof (induction limit arbitrary: depth)
  case 0
  show ?case by simp
next
  case (Suc limit)
  obtain g where "search ar [[1], [1]] [0, 1] =
     Inr (Gain g, Some \<lparr>feature_idx = 0, threshold = 1, left_y = [0, 1], right_y = []\<rparr>)"
    using search_equal_rows by blast
  then show ?case
    by (simp add: unique_def depth_reached_def take_rows_def Suc.IH)
qed

section \<open>A depth limit of zero\<close>

text \<open>
  Claim C1 says that with \<^verbatim>\<open>max_depth = 0\<close> the fitted tree is a single leaf holding the
  majority label. The guard \<^verbatim>\<open>self.max_depth and depth >= self.max_depth\<close> is false
  for 0, so the builder searches for a split as it does without a limit: in every
  arithmetic and on every input the builder with the limit 0 does what the builder without
  a limit does. On X = [[1], [2]], y = [0, 1] the majority label (ties to the lowest) is 0,
  and \<^verbatim>\<open>fit\<close> stores an Internal node with two leaves, whatever the recursion limit
  (two nested calls are enough), in real arithmetic and in every arithmetic that computes
  the two gains of this input, about 1 and 0, within 1/20.
\<close>

theorem max_depth_zero_is_unlimited:
  "build_tree ar limit (Some 0) X y depth = build_tree ar limit None X y depth \<and>
   (close_gains ar [[1], [2]] [0, 1] \<delta> \<and> \<delta> \<le> 1 / 20 \<longrightarrow>
      fit ar (Suc (Suc limit)) (init (Some 0)) [[1], [2]] [0, 1] =
        Inr ((init (Some 0))\<lparr>tree := Some (Internal 0 1 (Leaf 0) (Leaf 1))\<rparr>)) \<and>
   fit real_arith (Suc (Suc limit)) (init (Some 0)) [[1], [2]] [0, 1] =
     Inr ((init (Some 0))\<lparr>tree := Some (Internal 0 1 (Leaf 0) (Leaf 1))\<rparr>) \<and>
   bincount_argmax [0, 1] = Inr 0"
proof (intro conjI impI)
  show "build_tree ar limit (Some 0) X y depth = build_tree ar limit None X y depth"
    by (rule build_tree_zero_limit)
  have "build_tree real_arith (Suc (Suc limit)) (Some 0) [[1], [2]] [0, 1] 0 =
      Inr (Internal 0 1 (Leaf 0) (Leaf 1))"
    by (rule build_two_rows) (simp add: depth_reached_def)
  then show "fit real_arith (Suc (Suc limit)) (init (Some 0)) [[1], [2]] [0, 1] =
     Inr ((init (Some 0))\<lparr>tree := Some (Internal 0 1 (Leaf 0) (Leaf 1))\<rparr>)"
    by (simp add: fit_def init_def)
  show "bincount_argmax [0, 1] = Inr 0"
    by (simp add: bincount_argmax_def bincount_def argmax_def)
next
  assume "close_gains ar [[1], [2]] [0, 1] \<delta> \<and> \<delta> \<le> 1 / 20"
  moreover have "\<not> depth_reached (Some 0) 0" by (simp add: depth_reached_def)
  ultimately have "build_tree ar (Suc (Suc limit)) (Some 0) [[1], [2]] [0, 1] 0 =
      Inr (Internal 0 1 (Leaf 0) (Leaf 1))"
    using build_two_rows_close by blast
  then show "fit ar (Suc (Suc limit)) (init (Some 0)) [[1], [2]] [0, 1] =
        Inr ((init (Some 0))\<lparr>tree := Some (Internal 0 1 (Leaf 0) (Leaf 1))\<rparr>)"
    by (simp add: fit_def init_def)
qed

theorem max_depth_zero_is_unlimited_witness:
  "close_gains real_arith [[1], [2]] [0, 1] 0 \<and>
   fit real_arith 2 (init (Some 0)) [[1], [2]] [0, 1] =
     Inr \<lparr>max_depth = Some 0, tree = Some (Internal 0 1 (Leaf 0) (Leaf 1))\<rparr>"
  using max_depth_zero_is_unlimited [of real_arith 0 "[]" "[]" 0 0] close_gains_real(1)
  by (simp add: init_def numeral_2_eq_2)

section \<open>What the recursive calls receive\<close>

text \<open>
  Claim C2. Whenever a call of \<^verbatim>\<open>_build_tree\<close> reaches the search and the search
  records a split, the result of the call is built from two recursive calls, each on the
  rows of X taken at the positions given by the label values of its partition (row
  number \<open>v\<close> of X for each label \<open>v\<close> of \<^verbatim>\<open>left_y\<close>, respectively \<^verbatim>\<open>right_y\<close>; an
  IndexError when a label is not below the number of rows) together with that label
  partition; and every Internal node that a call returns has as its children the trees
  that these two calls return. These are not the rows that the split mask selects. For
  X = [[1], [2], [3], [4]], y = [0, 0, 1, 0] and no depth limit the root splits at
  threshold 2 with the right labels [1, 0]; the mask selects the rows [[3], [4]] for the
  right side, the recursive call receives X[[1, 0]] = [[2], [1]], and the right child
  is built from it: it splits at threshold 1, a feature value of the left side. This holds
  in real arithmetic and in every arithmetic that computes the gains of the two searches
  within 1/20.
\<close>

theorem recursion_indexes_by_labels:
  "(length (unique y) \<noteq> 1 \<and> X \<noteq> [] \<and> \<not> depth_reached md depth \<and>
    search ar X y = Inr (b, Some sp) \<longrightarrow>
    build_tree ar (Suc limit) md X y depth =
     (case take_rows X (left_y sp) of Inl e \<Rightarrow> Inl e | Inr XL \<Rightarrow>
      (case build_tree ar limit md XL (left_y sp) (depth + 1) of Inl e \<Rightarrow> Inl e
       | Inr left_tree \<Rightarrow>
       (case take_rows X (right_y sp) of Inl e \<Rightarrow> Inl e | Inr XR \<Rightarrow>
        (case build_tree ar limit md XR (right_y sp) (depth + 1) of Inl e \<Rightarrow> Inl e
         | Inr right_tree \<Rightarrow>
             Inr (Internal (feature_idx sp) (threshold sp) left_tree right_tree))))) \<and>
    take_rows X (left_y sp) =
      (if list_all (\<lambda>v. v < int (length X)) (left_y sp)
       then Inr (map (\<lambda>v. X ! nat v) (left_y sp)) else Inl IndexError) \<and>
    take_rows X (right_y sp) =
      (if list_all (\<lambda>v. v < int (length X)) (right_y sp)
       then Inr (map (\<lambda>v. X ! nat v) (right_y sp)) else Inl IndexError)) \<and>
   (build_tree ar limit' md X y depth = Inr (Internal f t lt rt) \<longrightarrow>
      (\<exists>l b' sp'. limit' = Suc l \<and> search ar X y = Inr (b', Some sp') \<and>
         f = feature_idx sp' \<and> t = threshold sp' \<and>
         build_tree ar l md (map (\<lambda>v. X ! nat v) (left_y sp')) (left_y sp') (depth + 1) = Inr lt \<and>
         build_tree ar l md (map (\<lambda>v. X ! nat v) (right_y sp')) (right_y sp') (depth + 1) =
           Inr rt)) \<and>
   (close_gains ar [[1], [2], [3], [4]] [0, 0, 1, 0] \<delta> \<and> close_gains ar [[2], [1]] [1, 0] \<delta> \<and>
    \<delta> \<le> 1 / 20 \<longrightarrow>
      build_tree ar (Suc (Suc (Suc limit))) None [[1], [2], [3], [4]] [0, 0, 1, 0] depth =
        Inr (Internal 0 2 (Leaf 0) (Internal 0 1 (Leaf 0) (Leaf 1)))) \<and>
   build_tree real_arith (Suc (Suc (Suc limit))) None [[1], [2], [3], [4]] [0, 0, 1, 0] depth =
     Inr (Internal 0 2 (Leaf 0) (Internal 0 1 (Leaf 0) (Leaf 1))) \<and>
   take_rows [[1], [2], [3], [4::real]] [1, 0] = Inr [[2], [1]] \<and>
   mask_rows [[1], [2], [3], [4]] 0 2 = ([[1], [2]], [[3], [4]])"
proof (intro conjI impI)
  assume a: "length (unique y) \<noteq> 1 \<and> X \<noteq> [] \<and> \<not> depth_reached md depth \<and>
    search ar X y = Inr (b, Some sp)"
  then have s: "search ar X y = Inr (b, Some sp)" by simp
  from search_gain_greatest [OF s] obtain g
    where "information_gain ar y (left_y sp) (right_y sp) = Inr g" by blast
  then have "list_all (\<lambda>v. 0 \<le> v) (left_y sp)" "list_all (\<lambda>v. 0 \<le> v) (right_y sp)"
    by (rule information_gain_labels)+
  then show "take_rows X (left_y sp) =
      (if list_all (\<lambda>v. v < int (length X)) (left_y sp)
       then Inr (map (\<lambda>v. X ! nat v) (left_y sp)) else Inl IndexError)"
    and "take_rows X (right_y sp) =
      (if list_all (\<lambda>v. v < int (length X)) (right_y sp)
       then Inr (map (\<lambda>v. X ! nat v) (right_y sp)) else Inl IndexError)"
    by (simp_all only: take_rows_labels)
  show "build_tree ar (Suc limit) md X y depth =
     (case take_rows X (left_y sp) of Inl e \<Rightarrow> Inl e | Inr XL \<Rightarrow>
      (case build_tree ar limit md XL (left_y sp) (depth + 1) of Inl e \<Rightarrow> Inl e
       | Inr left_tree \<Rightarrow>
       (case take_rows X (right_y sp) of Inl e \<Rightarrow> Inl e | Inr XR \<Rightarrow>
        (case build_tree ar limit md XR (right_y sp) (depth + 1) of Inl e \<Rightarrow> Inl e
         | Inr right_tree \<Rightarrow>
             Inr (Internal (feature_idx sp) (threshold sp) left_tree right_tree)))))"
    using a by (simp add: Let_def)
next
  assume "build_tree ar limit' md X y depth = Inr (Internal f t lt rt)"
  then obtain l b' sp' XL XR where l: "limit' = Suc l"
    and s: "search ar X y = Inr (b', Some sp')"
    and ft: "f = feature_idx sp'" "t = threshold sp'"
    and L: "take_rows X (left_y sp') = Inr XL"
      "build_tree ar l md XL (left_y sp') (depth + 1) = Inr lt"
    and R: "take_rows X (right_y sp') = Inr XR"
      "build_tree ar l md XR (right_y sp') (depth + 1) = Inr rt"
    by (rule build_tree_Internal)
  from search_gain_greatest [OF s] obtain g
    where "information_gain ar y (left_y sp') (right_y sp') = Inr g" by blast
  then have "list_all (\<lambda>v. 0 \<le> v) (left_y sp')" "list_all (\<lambda>v. 0 \<le> v) (right_y sp')"
    by (rule information_gain_labels)+
  with L(1) R(1) have "XL = map (\<lambda>v. X ! nat v) (left_y sp')"
    "XR = map (\<lambda>v. X ! nat v) (right_y sp')"
    by (auto simp: take_rows_labels split: if_splits)
  with l s ft L(2) R(2)
  show "\<exists>l b' sp'. limit' = Suc l \<and> search ar X y = Inr (b', Some sp') \<and>
         f = feature_idx sp' \<and> t = threshold sp' \<and>
         build_tree ar l md (map (\<lambda>v. X ! nat v) (left_y sp')) (left_y sp') (depth + 1) = Inr lt \<and>
         build_tree ar l md (map (\<lambda>v. X ! nat v) (right_y sp')) (right_y sp') (depth + 1) =
           Inr rt"
    by blast
next
  assume "close_gains ar [[1], [2], [3], [4]] [0, 0, 1, 0] \<delta> \<and>
    close_gains ar [[2], [1]] [1, 0] \<delta> \<and> \<delta> \<le> 1 / 20"
  then show "build_tree ar (Suc (Suc (Suc limit))) None [[1], [2], [3], [4]] [0, 0, 1, 0] depth =
        Inr (Internal 0 2 (Leaf 0) (Internal 0 1 (Leaf 0) (Leaf 1)))"
    using build_mixed_rows_close by blast
next
  show "build_tree real_arith (Suc (Suc (Suc limit))) None [[1], [2], [3], [4]] [0, 0, 1, 0]
      depth = Inr (Internal 0 2 (Leaf 0) (Internal 0 1 (Leaf 0) (Leaf 1)))"
    using build_mixed_rows_close [OF close_gains_real(3) close_gains_real(4)] by simp
  show "take_rows [[1], [2], [3], [4::real]] [1, 0] = Inr [[2], [1]]"
    by (simp add: take_rows_def)
  show "mask_rows [[1], [2], [3], [4]] 0 2 = ([[1], [2]], [[3], [4]])"
    by (simp add: mask_rows_def)
qed

theorem recursion_indexes_by_labels_witness:
  "build_tree real_arith 2 (Some 1) [[1], [2], [3], [4]] [0, 0, 1, 1] 0 =
     (case build_tree real_arith 1 (Some 1) [[1], [1]] [0, 0] 1 of Inl e \<Rightarrow> Inl e
      | Inr left_tree \<Rightarrow>
       (case build_tree real_arith 1 (Some 1) [[2], [2]] [1, 1] 1 of Inl e \<Rightarrow> Inl e
        | Inr right_tree \<Rightarrow> Inr (Internal 0 2 left_tree right_tree))) \<and>
   build_tree real_arith 1 (Some 1) [[1], [1]] [0, 0] 1 = Inr (Leaf 0) \<and>
   build_tree real_arith 1 (Some 1) [[2], [2]] [1, 1] 1 = Inr (Leaf 1) \<and>
   build_tree real_arith 3 None [[1], [2], [3], [4]] [0, 0, 1, 0] 0 =
     Inr (Internal 0 2 (Leaf 0) (Internal 0 1 (Leaf 0) (Leaf 1)))"
proof -
  note inst = recursion_indexes_by_labels [where ar = real_arith and X = "[[1], [2], [3], [4]]"
      and y = "[0, 0, 1, 1]" and md = "Some 1" and depth = 0 and limit = 1
      and b = "Gain (log 2 (1000000001 / 1000000000) - log 2 (500000001 / 1000000000))"
      and sp = "\<lparr>feature_idx = 0, threshold = 2, left_y = [0, 0], right_y = [1, 1]\<rparr>"
      and \<delta> = 0]
  have one: "build_tree real_arith 2 (Some 1) [[1], [2], [3], [4]] [0, 0, 1, 1] 0 =
     (case build_tree real_arith 1 (Some 1) [[1], [1]] [0, 0] 1 of Inl e \<Rightarrow> Inl e
      | Inr left_tree \<Rightarrow>
       (case build_tree real_arith 1 (Some 1) [[2], [2]] [1, 1] 1 of Inl e \<Rightarrow> Inl e
        | Inr right_tree \<Rightarrow> Inr (Internal 0 2 left_tree right_tree)))"
    using inst search_four_rows
    by (simp add: unique_def depth_reached_def numeral_2_eq_2)
  have two: "build_tree real_arith 3 None [[1], [2], [3], [4]] [0, 0, 1, 0] 0 =
     Inr (Internal 0 2 (Leaf 0) (Internal 0 1 (Leaf 0) (Leaf 1)))"
    using recursion_indexes_by_labels [where limit = 0 and depth = 0]
    by (simp add: numeral_3_eq_3)
  have "build_tree real_arith 1 (Some 1) [[1], [1]] [0, 0] 1 = Inr (Leaf 0)"
    "build_tree real_arith 1 (Some 1) [[2], [2]] [1, 1] 1 = Inr (Leaf 1)"
    by (simp_all add: unique_def)
  with one two show ?thesis by simp
qed

section \<open>Training sets with one label\<close>

text \<open>
  Claim C3. When all labels of y are the same label c, \<^verbatim>\<open>fit\<close> stores the tree
  Leaf c (the recursion limit allowing one call), and \<^verbatim>\<open>predict\<close> with that tree returns c
  for every row of any matrix. No float is computed on the way.
\<close>

theorem uniform_labels_single_leaf:
  assumes "set y = {c}"
  shows "fit ar (Suc limit) self X y = Inr (self\<lparr>tree := Some (Leaf c)\<rparr>) \<and>
         predict (self\<lparr>tree := Some (Leaf c)\<rparr>) X' = Inr (map (\<lambda>x. c) X')"
  using assms by (simp add: fit_def predict_def unique_single comprehension_const)

theorem uniform_labels_single_leaf_witness:
  "fit real_arith 1 (init None) [[1], [2], [3]] [2, 2, 2] =
     Inr ((init None)\<lparr>tree := Some (Leaf 2)\<rparr>) \<and>
   predict ((init None)\<lparr>tree := Some (Leaf 2)\<rparr>) [[5], [6]] = Inr [2, 2]"
  using uniform_labels_single_leaf [of "[2, 2, 2]" 2 real_arith 0 "init None" "[[1], [2], [3]]"
      "[[5], [6]]"]
  by simp

section \<open>The sign of the entropy\<close>

text \<open>
  Claim C4, as the code has it, in real arithmetic. For a vector of equal labels
  (non-negative, as \<^verbatim>\<open>np.bincount\<close> requires) \<^verbatim>\<open>_entropy\<close> returns
  \<open>- log\<^sub>2 (1 + 10\<^sup>-\<^sup>9)\<close>, which is below 0: the constant added inside the logarithm is also
  added to the frequency 1. For a vector of non-negative labels with two distinct labels,
  in which no label has a frequency of \<open>1 - 10\<^sup>-\<^sup>9\<close> or more, \<^verbatim>\<open>_entropy\<close> returns a
  strictly positive value; this covers every such vector with fewer than \<open>10\<^sup>9\<close> entries.
\<close>

theorem entropy_pure_and_mixed:
  "(set y = {c} \<and> 0 \<le> c \<longrightarrow> entropy real_arith y = Inr (- log 2 (1 + 1 / 10 ^ 9))) \<and>
   - log 2 (1 + 1 / 10 ^ 9) < (0::real) \<and>
   (a \<in> set y \<and> b \<in> set y \<and> a \<noteq> b \<and> (\<forall>v\<in>set y. 0 \<le> v) \<and>
    (\<forall>v\<in>set y. real (count_list y v) / real (length y) + 1 / 10 ^ 9 < 1)
      \<longrightarrow> (\<exists>e. entropy real_arith y = Inr e \<and> 0 < e)) \<and>
   (a \<in> set y \<and> b \<in> set y \<and> a \<noteq> b \<and> (\<forall>v\<in>set y. 0 \<le> v) \<and> length y < 10 ^ 9
      \<longrightarrow> (\<exists>e. entropy real_arith y = Inr e \<and> 0 < e))"
proof (intro conjI impI)
  assume "set y = {c} \<and> 0 \<le> c"
  then show "entropy real_arith y = Inr (- log 2 (1 + 1 / 10 ^ 9))" by (simp add: entropy_pure)
next
  show "- log 2 (1 + 1 / 10 ^ 9) < (0::real)" by simp
next
  assume "a \<in> set y \<and> b \<in> set y \<and> a \<noteq> b \<and> (\<forall>v\<in>set y. 0 \<le> v) \<and>
    (\<forall>v\<in>set y. real (count_list y v) / real (length y) + 1 / 10 ^ 9 < 1)"
  then show "\<exists>e. entropy real_arith y = Inr e \<and> 0 < e" using entropy_mixed [of a y b] by blast
next
  assume h: "a \<in> set y \<and> b \<in> set y \<and> a \<noteq> b \<and> (\<forall>v\<in>set y. 0 \<le> v) \<and> length y < 10 ^ 9"
  then have "\<forall>v\<in>set y. real (count_list y v) / real (length y) + 1 / 10 ^ 9 < 1"
    using small_vector_frequencies [of a y b] by blast
  with h show "\<exists>e. entropy real_arith y = Inr e \<and> 0 < e" using entropy_mixed [of a y b] by blast
qed

theorem entropy_pure_and_mixed_witness:
  "entropy real_arith [3, 3] = Inr (- log 2 (1 + 1 / 10 ^ 9)) \<and>
   (\<exists>e. entropy real_arith [0, 1, 1] = Inr e \<and> 0 < e)"
  using entropy_pure_and_mixed [of "[3, 3]" 3] entropy_pure_and_mixed [of "[0, 1, 1]" _ 0 1]
  by simp

text \<open>
  The claim as stated fails in both halves: the entropy of the one-element vector [0] is
  not 0, and the vector with one label 0 and \<open>10\<^sup>1\<^sup>2\<close> labels 1 has two labels of nonzero
  frequency and a negative entropy.
\<close>

theorem entropy_pure_and_mixed_counterexample:
  "\<not> (\<forall>y c. set y = {c} \<longrightarrow> entropy real_arith y = Inr 0) \<and>
   \<not> (\<forall>y a b. a \<in> set y \<and> b \<in> set y \<and> a \<noteq> b \<longrightarrow>
         (\<exists>e. entropy real_arith y = Inr e \<and> 0 < e))"
proof (intro conjI notI)
  assume "\<forall>y c. set y = {c} \<longrightarrow> entropy real_arith y = Inr 0"
  then have "entropy real_arith [0] = Inr 0" by simp
  moreover have "entropy real_arith [0] = Inr (- log 2 (1 + 1 / 10 ^ 9))"
    using entropy_pure [of "[0]" 0] by simp
  ultimately have "log 2 (1 + 1 / 10 ^ 9) = (0::real)" by simp
  moreover have "(0::real) < log 2 (1 + 1 / 10 ^ 9)" by simp
  ultimately show False by linarith
next
  let ?y = "0 # replicate (10 ^ 12) (1::int)"
  assume "\<forall>y a b. a \<in> set y \<and> b \<in> set y \<and> a \<noteq> b \<longrightarrow>
    (\<exists>e. entropy real_arith y = Inr e \<and> 0 < e)"
  moreover have "(0::int) \<in> set ?y \<and> 1 \<in> set ?y \<and> (0::int) \<noteq> 1" by simp
  ultimately obtain e where "entropy real_arith ?y = Inr e" "0 < e" by blast
  with entropy_unbalanced_negative show False by auto
qed

section \<open>The split that the search records\<close>



section \<open>Prediction before training\<close>

text \<open>
  Claim C6, as the code has it. \<^verbatim>\<open>predict\<close> has no check for a missing tree. Before any
  \<^verbatim>\<open>fit\<close>, on a matrix with no row it returns the empty list, and on a matrix with at
  least one row it raises the TypeError of the membership test \<^verbatim>\<open>'class' in tree\<close> on
  None, in \<^verbatim>\<open>_predict_single\<close>.
\<close>

theorem predict_before_fit:
  "predict (init md) X = (if X = [] then Inr [] else Inl TypeError)"
  by (simp add: predict_def init_def comprehension_fail)

theorem predict_before_fit_witness:
  "predict (init None) [[1, 2]] = Inl TypeError \<and> predict (init (Some 3)) [] = Inr []"
  using predict_before_fit [of None "[[1, 2]]"] predict_before_fit [of "Some 3" "[]"] by simp

text \<open>The claim as stated, that the call fails, is false for the matrix with no row.\<close>

theorem predict_before_fit_counterexample:
  "\<not> (\<forall>md X. \<exists>e. predict (init md) X = Inl e)"
proof
  assume "\<forall>md X. \<exists>e. predict (init md) X = Inl e"
  then obtain e where "predict (init None) [] = Inl e" by blast
  then show False by (simp add: predict_def)
qed

section \<open>The tracked gain never decreases\<close>

text \<open>
  Claim C7. In every arithmetic, one step of the inner loop never lowers the tracked best
  gain, and neither does any run of the two loops, from any state. Consequently, when the
  search records a split, its tracked gain is the computed information gain of the
  recorded partition and it is at least the computed gain of every candidate. It is not
  negative: the greatest threshold of a feature gives the trivial partition, whose gain
  is computed without rounding and is 0. Real arithmetic is one such arithmetic.
\<close>

theorem best_gain_never_decreases:
  "(try_threshold ar X y f t s = Inr s' \<longrightarrow> gain_le (fst s) (fst s')) \<and>
   (for_each (\<lambda>f. for_each (try_threshold ar X y f) (unique (column X f))) fs s = Inr s'
      \<longrightarrow> gain_le (fst s) (fst s')) \<and>
   (search ar X y = Inr (b, Some sp) \<longrightarrow>
      (\<exists>g. b = Gain g \<and> information_gain ar y (left_y sp) (right_y sp) = Inr g \<and>
           (\<forall>c\<in>set (candidates X). \<exists>g'. candidate_gain ar X y c = Inr g' \<and> g' \<le> g) \<and>
           (ieee_exact ar \<longrightarrow> 0 \<le> g))) \<and>
   ieee_exact real_arith"
proof (intro conjI impI)
  assume "try_threshold ar X y f t s = Inr s'"
  then show "gain_le (fst s) (fst s')" by (rule try_threshold_mono)
next
  assume "for_each (\<lambda>f. for_each (try_threshold ar X y f) (unique (column X f))) fs s = Inr s'"
  then show "gain_le (fst s) (fst s')"
    by (simp add: for_each_concat for_each_candidates_mono)
next
  assume "search ar X y = Inr (b, Some sp)"
  then show "\<exists>g. b = Gain g \<and> information_gain ar y (left_y sp) (right_y sp) = Inr g \<and>
           (\<forall>c\<in>set (candidates X). \<exists>g'. candidate_gain ar X y c = Inr g' \<and> g' \<le> g) \<and>
           (ieee_exact ar \<longrightarrow> 0 \<le> g)"
    by (rule search_gain_greatest)
next
  show "ieee_exact real_arith" by (rule ieee_exact_real)
qed

theorem best_gain_never_decreases_witness:
  "(\<exists>s1 s2. try_threshold real_arith [[1], [2], [3], [4]] [0, 0, 1, 1] 0 1 (NegInf, None) = Inr s1 \<and>
      try_threshold real_arith [[1], [2], [3], [4]] [0, 0, 1, 1] 0 2 s1 = Inr s2 \<and>
      gain_le (fst s1) (fst s2)) \<and>
   (\<exists>g. 0 \<le> g \<and> information_gain real_arith [0, 1] [0] [1] = Inr g)"
proof -
  let ?s1 = "(Gain (- log 2 (500000001 / 1000000000) -
              ((- log 2 (1000000003 / 3000000000) - 2 * log 2 (2000000003 / 3000000000)) / 4 -
               log 2 (1000000001 / 1000000000) / 4)),
      Some \<lparr>feature_idx = 0, threshold = 1, left_y = [0], right_y = [0, 1, 1]\<rparr>)"
  let ?s2 = "(Gain (log 2 (1000000001 / 1000000000) - log 2 (500000001 / 1000000000)),
        Some \<lparr>feature_idx = 0, threshold = 2, left_y = [0, 0], right_y = [1, 1]\<rparr>)"
  have "gain_le (fst ?s1) (fst ?s2)"
    using best_gain_never_decreases [where ar = real_arith and X = "[[1], [2], [3], [4]]"
        and y = "[0, 0, 1, 1]" and f = 0 and t = 2 and s = ?s1 and s' = ?s2]
      second_step_four_rows
    by blast
  then have "\<exists>s1 s2.
      try_threshold real_arith [[1], [2], [3], [4]] [0, 0, 1, 1] 0 1 (NegInf, None) = Inr s1 \<and>
      try_threshold real_arith [[1], [2], [3], [4]] [0, 0, 1, 1] 0 2 s1 = Inr s2 \<and>
      gain_le (fst s1) (fst s2)"
    using first_step_four_rows second_step_four_rows by blast
  moreover have "\<exists>g. 0 \<le> g \<and> information_gain real_arith [0, 1] [0] [1] = Inr g"
    using best_gain_never_decreases [where ar = real_arith and X = "[[1], [2]]" and y = "[0, 1]"
        and b = "Gain (log 2 (1000000001 / 1000000000) - log 2 (500000001 / 1000000000))"
        and sp = "\<lparr>feature_idx = 0, threshold = 1, left_y = [0], right_y = [1]\<rparr>"]
      search_two_rows
    by auto
  ultimately show ?thesis by (rule conjI)
qed

section \<open>Four rows, depth one\<close>

text \<open>
  Claim C8. For X = [[1], [2], [3], [4]], y = [0, 0, 1, 1] and \<^verbatim>\<open>max_depth = 1\<close>,
  \<^verbatim>\<open>fit\<close> stores the Internal node with feature index 0 and threshold 2 whose children
  are Leaf 0 and Leaf 1, and \<^verbatim>\<open>predict\<close> on the same four rows returns [0, 0, 1, 1]. The
  search records that split with the partition [0, 0] and [1, 1]; its gain is 1 up to the
  constant added inside the logarithms (in real arithmetic it differs from 1 by less than
  \<open>3 \<sqdot> 10\<^sup>-\<^sup>9\<close>). The same holds in every arithmetic that computes the four gains of this
  input (about 0.31, 1, 0.31 and 0) within \<open>\<delta> \<le> 1/20\<close>, the gain then being within
  \<open>3 \<sqdot> 10\<^sup>-\<^sup>9 + \<delta>\<close> of 1.
\<close>

theorem four_rows_depth_one:
  "fit real_arith (Suc (Suc limit)) (init (Some 1)) [[1], [2], [3], [4]] [0, 0, 1, 1] =
     Inr ((init (Some 1))\<lparr>tree := Some (Internal 0 2 (Leaf 0) (Leaf 1))\<rparr>) \<and>
   predict ((init (Some 1))\<lparr>tree := Some (Internal 0 2 (Leaf 0) (Leaf 1))\<rparr>)
     [[1], [2], [3], [4]] = Inr [0, 0, 1, 1] \<and>
   (\<exists>g. search real_arith [[1], [2], [3], [4]] [0, 0, 1, 1] =
          Inr (Gain g, Some \<lparr>feature_idx = 0, threshold = 2, left_y = [0, 0], right_y = [1, 1]\<rparr>) \<and>
        \<bar>g - 1\<bar> < 3 / 10 ^ 9) \<and>
   (close_gains ar [[1], [2], [3], [4]] [0, 0, 1, 1] \<delta> \<and> \<delta> \<le> 1 / 20 \<longrightarrow>
      fit ar (Suc (Suc limit)) (init (Some 1)) [[1], [2], [3], [4]] [0, 0, 1, 1] =
        Inr ((init (Some 1))\<lparr>tree := Some (Internal 0 2 (Leaf 0) (Leaf 1))\<rparr>) \<and>
      (\<exists>g. search ar [[1], [2], [3], [4]] [0, 0, 1, 1] =
          Inr (Gain g, Some \<lparr>feature_idx = 0, threshold = 2, left_y = [0, 0], right_y = [1, 1]\<rparr>) \<and>
        \<bar>g - 1\<bar> < 3 / 10 ^ 9 + \<delta>))"
proof (intro conjI impI)
  have d: "\<not> depth_reached (Some 1) 0" by (simp add: depth_reached_def)
  have "build_tree real_arith (Suc (Suc limit)) (Some 1) [[1], [2], [3], [4]] [0, 0, 1, 1] 0 =
      Inr (Internal 0 2 (Leaf 0) (Leaf 1))"
    using build_four_rows_close [OF close_gains_real(2) _ d] by simp
  then show "fit real_arith (Suc (Suc limit)) (init (Some 1)) [[1], [2], [3], [4]] [0, 0, 1, 1] =
     Inr ((init (Some 1))\<lparr>tree := Some (Internal 0 2 (Leaf 0) (Leaf 1))\<rparr>)"
    by (simp add: fit_def init_def)
  show "predict ((init (Some 1))\<lparr>tree := Some (Internal 0 2 (Leaf 0) (Leaf 1))\<rparr>)
     [[1], [2], [3], [4]] = Inr [0, 0, 1, 1]"
    by (simp add: predict_def)
  show "\<exists>g. search real_arith [[1], [2], [3], [4]] [0, 0, 1, 1] =
          Inr (Gain g, Some \<lparr>feature_idx = 0, threshold = 2, left_y = [0, 0], right_y = [1, 1]\<rparr>) \<and>
        \<bar>g - 1\<bar> < 3 / 10 ^ 9"
    using search_four_rows gain_near_one by blast
  assume a: "close_gains ar [[1], [2], [3], [4]] [0, 0, 1, 1] \<delta> \<and> \<delta> \<le> 1 / 20"
  then have "build_tree ar (Suc (Suc limit)) (Some 1) [[1], [2], [3], [4]] [0, 0, 1, 1] 0 =
      Inr (Internal 0 2 (Leaf 0) (Leaf 1))"
    using build_four_rows_close d by blast
  then show "fit ar (Suc (Suc limit)) (init (Some 1)) [[1], [2], [3], [4]] [0, 0, 1, 1] =
        Inr ((init (Some 1))\<lparr>tree := Some (Internal 0 2 (Leaf 0) (Leaf 1))\<rparr>)"
    by (simp add: fit_def init_def)
  from a search_four_rows_close [of ar \<delta>] obtain g where
    g: "search ar [[1], [2], [3], [4]] [0, 0, 1, 1] =
          Inr (Gain g, Some \<lparr>feature_idx = 0, threshold = 2, left_y = [0, 0], right_y = [1, 1]\<rparr>)"
    "\<bar>g - (log 2 (1000000001 / 1000000000) - log 2 (500000001 / 1000000000))\<bar> \<le> \<delta>"
    by blast
  from g(2) gain_near_one have "\<bar>g - 1\<bar> < 3 / 10 ^ 9 + \<delta>" by linarith
  with g(1) show "\<exists>g. search ar [[1], [2], [3], [4]] [0, 0, 1, 1] =
          Inr (Gain g, Some \<lparr>feature_idx = 0, threshold = 2, left_y = [0, 0], right_y = [1, 1]\<rparr>) \<and>
        \<bar>g - 1\<bar> < 3 / 10 ^ 9 + \<delta>"
    by blast
qed

theorem four_rows_depth_one_witness:
  "close_gains real_arith [[1], [2], [3], [4]] [0, 0, 1, 1] 0 \<and>
   fit real_arith 2 (init (Some 1)) [[1], [2], [3], [4]] [0, 0, 1, 1] =
     Inr \<lparr>max_depth = Some 1, tree = Some (Internal 0 2 (Leaf 0) (Leaf 1))\<rparr> \<and>
   predict \<lparr>max_depth = Some 1, tree = Some (Internal 0 2 (Leaf 0) (Leaf 1))\<rparr>
     [[1], [2], [3], [4]] = Inr [0, 0, 1, 1]"
  using four_rows_depth_one [of 0 real_arith 0] close_gains_real(2)
  by (simp add: init_def numeral_2_eq_2)

section \<open>Constant feature columns\<close>

text \<open>
  Claim C9 says that with constant feature columns and no depth limit the builder returns
  a majority leaf without recursing. For ten rows [5] with the labels
  [0, 0, 0, 0, 0, 1, 1, 1, 1, 1] the only candidate is the trivial split; whatever its
  computed gain, it exceeds minus infinity and is recorded, \<^verbatim>\<open>best_split\<close> is not None,
  and the builder calls itself on the same ten rows and the same labels. In every
  arithmetic and whatever the recursion limit, the call ends in RecursionError and no tree
  is returned.
\<close>

theorem constant_features_never_return:
  "build_tree ar limit None [[5], [5], [5], [5], [5], [5], [5], [5], [5], [5]]
     [0, 0, 0, 0, 0, 1, 1, 1, 1, 1] depth = Inl RecursionError"
  by (rule build_ten_rows)

theorem constant_features_never_return_witness:
  "fit real_arith 1000 (init None) [[5], [5], [5], [5], [5], [5], [5], [5], [5], [5]]
     [0, 0, 0, 0, 0, 1, 1, 1, 1, 1] = Inl RecursionError"
  using constant_features_never_return [of real_arith 1000 0] by (simp add: fit_def init_def)

section \<open>The partitions of a recorded split\<close>

text \<open>
  Claim C10 says that every split recorded as best has a non-empty left and a non-empty
  right partition. The left partition of a recorded split is indeed never empty. The right
  one can be: for X = [[1], [1]], y = [0, 1] the only candidate is the trivial split, with
  all of y on the left and nothing on the right; its entropy terms are no undefined values
  (the entropy of the empty vector is the negated sum of no float), its gain, computed
  without rounding, is 0, and as the first candidate it is recorded. The builder then calls
  itself on the same rows and labels and ends in RecursionError, whatever the recursion
  limit. This is the defect of claim C9.
\<close>

theorem recorded_split_partitions:
  "(search ar X y = Inr (b, Some sp) \<longrightarrow> left_y sp \<noteq> []) \<and>
   (\<exists>g. search ar [[1], [1]] [0, 1] =
      Inr (Gain g, Some \<lparr>feature_idx = 0, threshold = 1, left_y = [0, 1], right_y = []\<rparr>) \<and>
      (ieee_exact ar \<longrightarrow> g = 0)) \<and>
   entropy ar [] = Inr (- fsum ar []) \<and>
   build_tree ar limit None [[1], [1]] [0, 1] depth = Inl RecursionError"
proof (intro conjI impI)
  assume "search ar X y = Inr (b, Some sp)"
  then show "left_y sp \<noteq> []" by (rule search_left_nonempty)
next
  obtain g where g: "search ar [[1], [1]] [0, 1] =
      Inr (Gain g, Some \<lparr>feature_idx = 0, threshold = 1, left_y = [0, 1], right_y = []\<rparr>)"
    using search_equal_rows by blast
  from search_left_nonempty(2) [OF g] have "ieee_exact ar \<longrightarrow> g = 0" by simp
  with g show "\<exists>g. search ar [[1], [1]] [0, 1] =
      Inr (Gain g, Some \<lparr>feature_idx = 0, threshold = 1, left_y = [0, 1], right_y = []\<rparr>) \<and>
      (ieee_exact ar \<longrightarrow> g = 0)"
    by blast
next
  show "entropy ar [] = Inr (- fsum ar [])" by (rule entropy_Nil)
  show "build_tree ar limit None [[1], [1]] [0, 1] depth = Inl RecursionError"
    by (rule build_equal_rows)
qed

theorem recorded_split_partitions_witness:
  "search real_arith [[1], [1]] [0, 1] =
      Inr (Gain 0, Some \<lparr>feature_idx = 0, threshold = 1, left_y = [0, 1], right_y = []\<rparr>) \<and>
   fit real_arith 1000 (init None) [[1], [1]] [0, 1] = Inl RecursionError \<and>
   left_y \<lparr>feature_idx = 0, threshold = 1, left_y = [0], right_y = [1::int]\<rparr> \<noteq> []"
  using recorded_split_partitions [where ar = real_arith and limit = 1000 and depth = 0
      and X = "[[1], [2]]" and y = "[0, 1]"
      and b = "Gain (log 2 (1000000001 / 1000000000) - log 2 (500000001 / 1000000000))"
      and sp = "\<lparr>feature_idx = 0, threshold = 1, left_y = [0], right_y = [1]\<rparr>"]
    ieee_exact_real search_two_rows
  by (auto simp: fit_def init_def)

end
